theory Spec2Isabelle
  imports Complex_Main "HOL-Library.Multiset"
begin

section \<open>JavaScript numbers\<close>

text \<open>
  The simulator computes with JavaScript numbers. Finite numbers are modelled as
  \<^typ>\<open>real\<close> with exact arithmetic (rounding, overflow and the sign of zero are not
  modelled). The values that IEEE arithmetic produces where exact arithmetic has none,
  \<open>NaN\<close> and the two infinities, are the extra constructors of \<open>jsnum\<close>; they arise
  from the operator \<open>/\<close> with a zero divisor and from \<open>Math.sqrt\<close> of a negative number.
\<close>

datatype jsnum = Fin real | PosInf | NegInf | NaN

fun is_finite :: "jsnum \<Rightarrow> bool" where
  "is_finite (Fin x) = True"
| "is_finite PosInf = False"
| "is_finite NegInf = False"
| "is_finite NaN = False"

text \<open>\<open>a + b\<close>.\<close>

fun js_add :: "jsnum \<Rightarrow> jsnum \<Rightarrow> jsnum" where
  "js_add NaN b = NaN"
| "js_add a NaN = NaN"
| "js_add (Fin x) (Fin y) = Fin (x + y)"
| "js_add PosInf NegInf = NaN"
| "js_add NegInf PosInf = NaN"
| "js_add PosInf b = PosInf"
| "js_add NegInf b = NegInf"
| "js_add (Fin x) b = b"

text \<open>\<open>a - b\<close>.\<close>

fun js_neg :: "jsnum \<Rightarrow> jsnum" where
  "js_neg (Fin x) = Fin (- x)"
| "js_neg PosInf = NegInf"
| "js_neg NegInf = PosInf"
| "js_neg NaN = NaN"

definition js_sub :: "jsnum \<Rightarrow> jsnum \<Rightarrow> jsnum" where
  "js_sub a b = js_add a (js_neg b)"

text \<open>
  \<open>a / b\<close>. The divisors of the simulator are a difference \<open>max - min\<close> and an array
  length, so a zero divisor is the positive zero: \<open>0 / 0\<close> is \<open>NaN\<close> and \<open>a / 0\<close>
  is the infinity with the sign of \<open>a\<close>. No exception is raised.
\<close>

fun js_div :: "jsnum \<Rightarrow> jsnum \<Rightarrow> jsnum" where
  "js_div NaN b = NaN"
| "js_div a NaN = NaN"
| "js_div (Fin x) (Fin y) =
     (if y \<noteq> 0 then Fin (x / y)
      else if x = 0 then NaN
      else if 0 < x then PosInf else NegInf)"
| "js_div (Fin x) b = Fin 0"
| "js_div PosInf (Fin y) = (if 0 \<le> y then PosInf else NegInf)"
| "js_div NegInf (Fin y) = (if 0 \<le> y then NegInf else PosInf)"
| "js_div a b = NaN"

text \<open>\<open>a < b\<close>: false as soon as one side is \<open>NaN\<close>.\<close>

fun js_lt :: "jsnum \<Rightarrow> jsnum \<Rightarrow> bool" where
  "js_lt NaN b = False"
| "js_lt a NaN = False"
| "js_lt (Fin x) (Fin y) = (x < y)"
| "js_lt a NegInf = False"
| "js_lt PosInf b = False"
| "js_lt a PosInf = True"
| "js_lt NegInf b = True"

text \<open>\<open>Math.sqrt(a)\<close> and \<open>Math.pow(a, 2)\<close>.\<close>

fun Math_sqrt :: "jsnum \<Rightarrow> jsnum" where
  "Math_sqrt (Fin x) = (if x < 0 then NaN else Fin (sqrt x))"
| "Math_sqrt PosInf = PosInf"
| "Math_sqrt NegInf = NaN"
| "Math_sqrt NaN = NaN"

fun Math_pow2 :: "jsnum \<Rightarrow> jsnum" where
  "Math_pow2 (Fin x) = Fin (x * x)"
| "Math_pow2 PosInf = PosInf"
| "Math_pow2 NegInf = PosInf"
| "Math_pow2 NaN = NaN"

section \<open>Duration sampler\<close>

text \<open>
  \<^verbatim>\<open>
  function sampleTriangular(min, mode, max) {
    const u = Math.random();
    const f = (mode - min) / (max - min);
    if (u < f) {
      return min + Math.sqrt(u * (max - min) * (mode - min));
    } else {
      return max - Math.sqrt((1 - u) * (max - min) * (max - mode));
    }
  }
  \<close>
  The draw \<open>u\<close> of \<open>Math.random()\<close> is a parameter of the model. The quotient \<open>f\<close>
  is a definition of its own, so that statements can speak about it.
\<close>

definition sampleTriangular_f :: "real \<Rightarrow> real \<Rightarrow> real \<Rightarrow> jsnum" where
  "sampleTriangular_f minv mode maxv = js_div (Fin (mode - minv)) (Fin (maxv - minv))"

definition sampleTriangular :: "real \<Rightarrow> real \<Rightarrow> real \<Rightarrow> real \<Rightarrow> jsnum" where
  "sampleTriangular u minv mode maxv =
     (let f = sampleTriangular_f minv mode maxv in
      if js_lt (Fin u) f
      then js_add (Fin minv) (Math_sqrt (Fin (u * (maxv - minv) * (mode - minv))))
      else js_sub (Fin maxv) (Math_sqrt (Fin ((1 - u) * (maxv - minv) * (maxv - mode)))))"

section \<open>Data model\<close>

text \<open>
  \<^verbatim>\<open>
  export interface Task {
    id: string; name: string;
    optimistic: number; mostLikely: number; pessimistic: number;
    dependencies: string[];
    resourceType?: string; resourceCount?: number;
  }
  export interface ProjectData { projectName: string; description: string; tasks: Task[]; }
  \<close>
  An optional field is an \<open>option\<close>: \<open>None\<close> is \<open>undefined\<close>. The fields \<open>id\<close>
  and \<open>name\<close> are called \<open>task_id\<close> and \<open>task_name\<close> here.
\<close>

record task =
  task_id :: string
  task_name :: string
  optimistic :: real
  mostLikely :: real
  pessimistic :: real
  dependencies :: "string list"
  resourceType :: "string option"
  resourceCount :: "real option"

record projectData =
  projectName :: string
  description :: string
  tasks :: "task list"

text \<open>The only exception of the simulator is \<open>new Error(message)\<close>.\<close>

datatype error = Error string

section \<open>Topological sort\<close>

text \<open>
  \<^verbatim>\<open>
  function topologicalSort(tasks: Task[]): Task[] {
    const visited = new Set<string>();
    const result: Task[] = [];
    const temp = new Set<string>();
    const visit = (taskId: string) => {
      if (temp.has(taskId)) throw new Error("Circular dependency detected");
      if (visited.has(taskId)) return;
      temp.add(taskId);
      const task = tasks.find((t) => t.id === taskId);
      if (task) {
        task.dependencies.forEach((depId) => visit(depId));
        visited.add(taskId);
        result.push(task);
      }
      temp.delete(taskId);
    };
    tasks.forEach((t) => { if (!visited.has(t.id)) visit(t.id); });
    return result;
  }
  \<close>
  The three mutable locals are the fields of \<open>sort_state\<close>, passed through every call.
  A result is \<open>Some (Inr s)\<close> for a normal return in state \<open>s\<close>, \<open>Some (Inl e)\<close>
  for a thrown error and \<open>None\<close> when the recursion of \<open>visit\<close> is deeper than its fuel.
\<close>

record sort_state =
  visited :: "string set"
  result :: "task list"
  temp :: "string set"

text \<open>\<open>xs.forEach(f)\<close> for a callback that updates the state and may throw.\<close>

fun forEachE :: "('a \<Rightarrow> 's \<Rightarrow> (error + 's) option) \<Rightarrow> 'a list \<Rightarrow> 's \<Rightarrow> (error + 's) option" where
  "forEachE f [] s = Some (Inr s)"
| "forEachE f (x # xs) s =
     (case f x s of
        None \<Rightarrow> None
      | Some (Inl e) \<Rightarrow> Some (Inl e)
      | Some (Inr s') \<Rightarrow> forEachE f xs s')"

primrec visit :: "nat \<Rightarrow> task list \<Rightarrow> string \<Rightarrow> sort_state \<Rightarrow> (error + sort_state) option" where
  "visit 0 ts taskId s = None"
| "visit (Suc n) ts taskId s =
     (if taskId \<in> temp s then Some (Inl (Error ''Circular dependency detected''))
      else if taskId \<in> visited s then Some (Inr s)
      else
        let s1 = s\<lparr>temp := insert taskId (temp s)\<rparr> in
        case find (\<lambda>t. task_id t = taskId) ts of
          None \<Rightarrow> Some (Inr (s1\<lparr>temp := temp s1 - {taskId}\<rparr>))
        | Some task \<Rightarrow>
            (case forEachE (visit n ts) (dependencies task) s1 of
               None \<Rightarrow> None
             | Some (Inl e) \<Rightarrow> Some (Inl e)
             | Some (Inr s2) \<Rightarrow>
                 Some (Inr (s2\<lparr>visited := insert taskId (visited s2),
                                result := result s2 @ [task],
                                temp := temp s2 - {taskId}\<rparr>))))"

definition topologicalSort_fuel :: "nat \<Rightarrow> task list \<Rightarrow> (error + task list) option" where
  "topologicalSort_fuel n ts =
     (case forEachE (\<lambda>t s. if task_id t \<notin> visited s then visit n ts (task_id t) s else Some (Inr s))
             ts \<lparr>visited = {}, result = [], temp = {}\<rparr> of
        None \<Rightarrow> None
      | Some (Inl e) \<Rightarrow> Some (Inl e)
      | Some (Inr s) \<Rightarrow> Some (Inr (result s)))"

text \<open>
  The recursion of \<open>visit\<close> is at most one deeper than the number of tasks
  (\<open>topologicalSort_returns\<close> below), so this fuel is never used up.
\<close>

definition topologicalSort :: "task list \<Rightarrow> (error + task list) option" where
  "topologicalSort ts = topologicalSort_fuel (Suc (length ts)) ts"

section \<open>One simulation run\<close>

text \<open>
  \<^verbatim>\<open>
  export interface SimulationResult {
    runId: number; totalDuration: number; criticalPath: string[];
    taskDurations: Record<string, number>;
    taskStartTimes: Record<string, number>;
    peakResources: Record<string, number>;
  }
  \<close>
  A \<open>Record<string, number>\<close> is a map from strings to numbers; a key that was never
  assigned reads as \<open>undefined\<close>, here \<open>None\<close>. Keys that are names of properties
  every JavaScript object inherits, such as \<open>constructor\<close>, are not modelled.
\<close>

record simulationResult =
  runId :: nat
  totalDuration :: real
  criticalPath :: "string list"
  taskDurations :: "string \<rightharpoonup> real"
  taskStartTimes :: "string \<rightharpoonup> real"
  peakResources :: "string \<rightharpoonup> real"

text \<open>\<open>v || 0\<close> for a number read from a record: \<open>undefined\<close> and \<open>0\<close> both give \<open>0\<close>.\<close>

definition or0 :: "real option \<Rightarrow> real" where
  "or0 v = (case v of None \<Rightarrow> 0 | Some x \<Rightarrow> x)"

text \<open>
  The schedule is computed with finite numbers. \<open>finite_value\<close> takes the sample, which
  \<open>sampleTriangular\<close> returns as a \<open>jsnum\<close>, to the real number it is; it is applied
  to samples only, and these are finite.
\<close>

fun finite_value :: "jsnum \<Rightarrow> real" where
  "finite_value (Fin x) = x"
| "finite_value PosInf = undefined"
| "finite_value NegInf = undefined"
| "finite_value NaN = undefined"

subsection \<open>Step 1: sample durations\<close>

text \<open>
  \<^verbatim>\<open>
  project.tasks.forEach((t) => {
    taskDurations[t.id] = sampleTriangular(t.optimistic, t.mostLikely, t.pessimistic);
  });
  \<close>
  \<open>Math.random()\<close> is the stream \<open>draws\<close> of numbers together with the count \<open>k\<close> of
  the draws made so far; every call of \<open>sampleTriangular\<close> takes the next draw. For a
  draw in \<open>[0, 1)\<close> the sample is finite (\<open>sampleTriangular_finite\<close> below).
\<close>

fun sampleDurations ::
  "(nat \<Rightarrow> real) \<Rightarrow> task list \<Rightarrow> (string \<rightharpoonup> real) \<times> nat \<Rightarrow> (string \<rightharpoonup> real) \<times> nat" where
  "sampleDurations draws [] (m, k) = (m, k)"
| "sampleDurations draws (t # ts) (m, k) =
     sampleDurations draws ts
       (m(task_id t \<mapsto>
            finite_value (sampleTriangular (draws k) (optimistic t) (mostLikely t) (pessimistic t))),
        Suc k)"

subsection \<open>Step 2: forward pass\<close>

text \<open>
  \<^verbatim>\<open>
  let projectDuration = 0;
  sortedTasks.forEach((task) => {
    let startTime = 0;
    if (task.dependencies.length > 0) {
      startTime = Math.max(...task.dependencies.map(depId => taskFinishTimes[depId] || 0));
    }
    const finishTime = startTime + taskDurations[task.id];
    taskStartTimes[task.id] = startTime;
    taskFinishTimes[task.id] = finishTime;
    if (finishTime > projectDuration) { projectDuration = finishTime; }
  });
  \<close>
  Every task of \<open>sortedTasks\<close> is a task of the project, so \<open>taskDurations[task.id]\<close>
  was assigned in step 1.
\<close>

record schedule =
  startTimes :: "string \<rightharpoonup> real"
  finishTimes :: "string \<rightharpoonup> real"
  projectDuration :: real

definition scheduleTask :: "(string \<rightharpoonup> real) \<Rightarrow> task \<Rightarrow> schedule \<Rightarrow> schedule" where
  "scheduleTask durations task sc =
     (let startTime =
            (if length (dependencies task) > 0
             then Max (set (map (\<lambda>depId. or0 (finishTimes sc depId)) (dependencies task)))
             else 0);
          finishTime = startTime + the (durations (task_id task))
      in \<lparr>startTimes = (startTimes sc)(task_id task \<mapsto> startTime),
          finishTimes = (finishTimes sc)(task_id task \<mapsto> finishTime),
          projectDuration =
            (if finishTime > projectDuration sc then finishTime else projectDuration sc)\<rparr>)"

definition forwardPass :: "(string \<rightharpoonup> real) \<Rightarrow> task list \<Rightarrow> schedule" where
  "forwardPass durations sortedTasks =
     fold (scheduleTask durations) sortedTasks
       \<lparr>startTimes = Map.empty, finishTimes = Map.empty, projectDuration = 0\<rparr>"

subsection \<open>Step 3: resource peaks\<close>

text \<open>
  \<^verbatim>\<open>
  const events: { time: number; type: string; change: number }[] = [];
  project.tasks.forEach(t => {
    if (t.resourceType && t.resourceCount) {
      events.push({ time: taskStartTimes[t.id], type: t.resourceType, change: t.resourceCount });
      events.push({ time: taskFinishTimes[t.id], type: t.resourceType, change: -t.resourceCount });
    }
  });
  events.sort((a, b) => a.time - b.time);
  const currentUsage: Record<string, number> = {};
  events.forEach(e => {
    currentUsage[e.type] = (currentUsage[e.type] || 0) + e.change;
    peakResources[e.type] = Math.max(peakResources[e.type] || 0, currentUsage[e.type]);
  });
  \<close>
  A string is truthy when it is not empty, a number when it is not zero.
  \<open>Array.prototype.sort\<close> is stable, as \<open>sort_key\<close> is: events with equal times keep
  the order in which they were pushed. The field \<open>type\<close> of an event is called
  \<open>rtype\<close> here.
\<close>

record event =
  time :: real
  rtype :: string
  change :: real

definition taskEvents :: "schedule \<Rightarrow> task \<Rightarrow> event list" where
  "taskEvents sc t =
     (case resourceType t of
        None \<Rightarrow> []
      | Some ty \<Rightarrow>
          (case resourceCount t of
             None \<Rightarrow> []
           | Some c \<Rightarrow>
               if ty \<noteq> [] \<and> c \<noteq> 0
               then [\<lparr>time = the (startTimes sc (task_id t)), rtype = ty, change = c\<rparr>,
                     \<lparr>time = the (finishTimes sc (task_id t)), rtype = ty, change = - c\<rparr>]
               else []))"

record usage =
  currentUsage :: "string \<rightharpoonup> real"
  peakUsage :: "string \<rightharpoonup> real"

definition applyEvent :: "event \<Rightarrow> usage \<Rightarrow> usage" where
  "applyEvent e us =
     (let cur = or0 (currentUsage us (rtype e)) + change e
      in \<lparr>currentUsage = (currentUsage us)(rtype e \<mapsto> cur),
          peakUsage = (peakUsage us)(rtype e \<mapsto> max (or0 (peakUsage us (rtype e))) cur)\<rparr>)"

definition resourcePeaks :: "task list \<Rightarrow> schedule \<Rightarrow> (string \<rightharpoonup> real)" where
  "resourcePeaks ts sc =
     peakUsage
       (fold applyEvent (sort_key time (concat (map (taskEvents sc) ts)))
          \<lparr>currentUsage = Map.empty, peakUsage = Map.empty\<rparr>)"

subsection \<open>The loop over the iterations\<close>

text \<open>
  \<^verbatim>\<open>
  for (let i = 0; i < iterations; i++) {
    ... steps 1 to 3 ...
    results.push({ runId: i, totalDuration: projectDuration, criticalPath: [],
                   taskDurations, taskStartTimes, peakResources });
  }
  \<close>
  A run returns its result and the count of draws made so far.
\<close>

definition simulateRun ::
  "task list \<Rightarrow> task list \<Rightarrow> (nat \<Rightarrow> real) \<Rightarrow> nat \<Rightarrow> nat \<Rightarrow> simulationResult \<times> nat" where
  "simulateRun ts sortedTasks draws i k =
     (let (durations, k') = sampleDurations draws ts (Map.empty, k);
          sc = forwardPass durations sortedTasks
      in (\<lparr>runId = i, totalDuration = projectDuration sc, criticalPath = [],
           taskDurations = durations, taskStartTimes = startTimes sc,
           peakResources = resourcePeaks ts sc\<rparr>, k'))"

primrec simulateRuns ::
  "task list \<Rightarrow> task list \<Rightarrow> (nat \<Rightarrow> real) \<Rightarrow> nat \<Rightarrow> simulationResult list \<times> nat" where
  "simulateRuns ts sortedTasks draws 0 = ([], 0)"
| "simulateRuns ts sortedTasks draws (Suc i) =
     (let (rs, k) = simulateRuns ts sortedTasks draws i;
          (r, k') = simulateRun ts sortedTasks draws i k
      in (rs @ [r], k'))"

section \<open>Statistics\<close>

text \<open>
  \<^verbatim>\<open>
  export interface SimulationStats {
    mean: number; median: number; stdDev: number; min: number; max: number;
    p50: number; p90: number; p95: number; p99: number;
    resourceStats: Record<string, { meanPeak: number; p90Peak: number; maxPeak: number; }>;
  }
  \<close>
  The fields that are read from an array are \<open>undefined\<close> (\<open>None\<close>) when the index is
  out of range; the fields that are quotients are \<open>jsnum\<close>s. The fields \<open>min\<close> and
  \<open>max\<close> are called \<open>min_stat\<close> and \<open>max_stat\<close> here.
\<close>

record resourceStat =
  meanPeak :: jsnum
  p90Peak :: "real option"
  maxPeak :: "real option"

record simulationStats =
  mean :: jsnum
  median :: "real option"
  stdDev :: jsnum
  min_stat :: "real option"
  max_stat :: "real option"
  p50 :: "real option"
  p90 :: "real option"
  p95 :: "real option"
  p99 :: "real option"
  resourceStats :: "string \<rightharpoonup> resourceStat"

text \<open>\<open>xs[i]\<close> for a number \<open>i\<close> that is an integer.\<close>

definition js_index :: "'a list \<Rightarrow> int \<Rightarrow> 'a option" where
  "js_index xs i = (if 0 \<le> i \<and> i < int (length xs) then Some (xs ! nat i) else None)"

text \<open>
  \<^verbatim>\<open>
  const resourceTypes = new Set<string>();
  project.tasks.forEach(t => { if (t.resourceType) resourceTypes.add(t.resourceType); });
  \<close>
  The set keeps the order of insertion.
\<close>

definition resourceTypes :: "task list \<Rightarrow> string list" where
  "resourceTypes ts =
     fold (\<lambda>t acc. case resourceType t of
                      None \<Rightarrow> acc
                    | Some ty \<Rightarrow> if ty \<noteq> [] \<and> ty \<notin> set acc then acc @ [ty] else acc)
          ts []"

text \<open>
  \<^verbatim>\<open>
  const durations = results.map(r => r.totalDuration).sort((a, b) => a - b);
  const sum = durations.reduce((a, b) => a + b, 0);
  const mean = sum / durations.length;
  const median = durations[Math.floor(durations.length / 2)];
  const variance = durations.reduce((acc, val) => acc + Math.pow(val - mean, 2), 0) / durations.length;
  const stdDev = Math.sqrt(variance);
  const getPercentile = (p: number) => durations[Math.floor(durations.length * p)];
  \<close>
\<close>

definition sortedDurations :: "simulationResult list \<Rightarrow> real list" where
  "sortedDurations results = sort (map totalDuration results)"

definition median_of :: "real list \<Rightarrow> real option" where
  "median_of durations = js_index durations \<lfloor>real (length durations) / 2\<rfloor>"

definition getPercentile :: "real list \<Rightarrow> real \<Rightarrow> real option" where
  "getPercentile durations p = js_index durations \<lfloor>real (length durations) * p\<rfloor>"

text \<open>
  \<^verbatim>\<open>
  resourceTypes.forEach(type => {
    const peaks = results.map(r => r.peakResources[type] || 0).sort((a, b) => a - b);
    resourceStats[type] = {
      meanPeak: peaks.reduce((a, b) => a + b, 0) / peaks.length,
      p90Peak: peaks[Math.floor(peaks.length * 0.9)],
      maxPeak: peaks[peaks.length - 1]
    };
  });
  \<close>
\<close>

definition sortedPeaks :: "simulationResult list \<Rightarrow> string \<Rightarrow> real list" where
  "sortedPeaks results ty = sort (map (\<lambda>r. or0 (peakResources r ty)) results)"

definition resourceStatOf :: "simulationResult list \<Rightarrow> string \<Rightarrow> resourceStat" where
  "resourceStatOf results ty =
     (let peaks = sortedPeaks results ty
      in \<lparr>meanPeak = js_div (Fin (fold (\<lambda>b a. a + b) peaks 0)) (Fin (real (length peaks))),
          p90Peak = js_index peaks \<lfloor>real (length peaks) * 0.9\<rfloor>,
          maxPeak = js_index peaks (int (length peaks) - 1)\<rparr>)"

definition calculateStats :: "string list \<Rightarrow> simulationResult list \<Rightarrow> simulationStats" where
  "calculateStats rtypes results =
     (let durations = sortedDurations results;
          sum = fold (\<lambda>b a. a + b) durations 0;
          mean = js_div (Fin sum) (Fin (real (length durations)));
          median = median_of durations;
          variance =
            js_div (fold (\<lambda>val acc. js_add acc (Math_pow2 (js_sub (Fin val) mean))) durations (Fin 0))
                   (Fin (real (length durations)));
          stdDev = Math_sqrt variance
      in \<lparr>mean = mean, median = median, stdDev = stdDev,
          min_stat = js_index durations 0,
          max_stat = js_index durations (int (length durations) - 1),
          p50 = median,
          p90 = getPercentile durations 0.90,
          p95 = getPercentile durations 0.95,
          p99 = getPercentile durations 0.99,
          resourceStats =
            fold (\<lambda>ty m. m(ty \<mapsto> resourceStatOf results ty)) rtypes Map.empty\<rparr>)"

section \<open>The simulation\<close>

text \<open>
  \<^verbatim>\<open>
  export function runSimulation(project: ProjectData, iterations: number = 2000) {
    const sortedTasks = topologicalSort(project.tasks);
    const results: SimulationResult[] = [];
    ... resourceTypes, the loop over the iterations, the statistics ...
    return { results, stats };
  }
  \<close>
  An error thrown by \<open>topologicalSort\<close> leaves \<open>runSimulation\<close> before anything else
  is computed.
\<close>

record simulationOutput =
  results :: "simulationResult list"
  stats :: simulationStats

definition runSimulation ::
  "projectData \<Rightarrow> nat \<Rightarrow> (nat \<Rightarrow> real) \<Rightarrow> (error + simulationOutput) option" where
  "runSimulation project iterations draws =
     (case topologicalSort (tasks project) of
        None \<Rightarrow> None
      | Some (Inl e) \<Rightarrow> Some (Inl e)
      | Some (Inr sortedTasks) \<Rightarrow>
          (let rs = fst (simulateRuns (tasks project) sortedTasks draws iterations)
           in Some (Inr \<lparr>results = rs,
                         stats = calculateStats (resourceTypes (tasks project)) rs\<rparr>)))"

section \<open>Notions used to state the properties of the topological sort\<close>

text \<open>
  The identifiers of a task collection, and its dependency relation: \<open>(a, d)\<close> is an
  edge when a task with identifier \<open>a\<close> lists \<open>d\<close> among its dependencies.
\<close>

definition task_ids :: "task list \<Rightarrow> string set" where
  "task_ids ts = set (map task_id ts)"

definition dep_rel :: "task list \<Rightarrow> (string \<times> string) set" where
  "dep_rel ts = set (concat (map (\<lambda>t. map (Pair (task_id t)) (dependencies t)) ts))"

text \<open>
  In the list \<open>r\<close>, every dependency that is an identifier of \<open>K\<close> stands before the
  task that lists it.
\<close>

definition deps_before :: "string set \<Rightarrow> task list \<Rightarrow> bool" where
  "deps_before K r \<longleftrightarrow>
     (\<forall>i<length r. \<forall>d\<in>set (dependencies (r ! i)). d \<in> K \<longrightarrow> (\<exists>j<i. task_id (r ! j) = d))"

text \<open>
  The invariant of the traversal state, and what one call of \<open>visit\<close> that returns
  normally does to the state.
\<close>

definition sort_inv :: "task list \<Rightarrow> sort_state \<Rightarrow> bool" where
  "sort_inv ts s \<longleftrightarrow>
     visited s = set (map task_id (result s)) \<and>
     distinct (map task_id (result s)) \<and>
     (\<forall>t\<in>set (result s). find (\<lambda>t'. task_id t' = task_id t) ts = Some t) \<and>
     deps_before (task_ids ts) (result s)"

definition sort_step :: "task list \<Rightarrow> sort_state \<Rightarrow> sort_state \<Rightarrow> bool" where
  "sort_step ts s s' \<longleftrightarrow>
     temp s' = temp s \<and> visited s \<subseteq> visited s' \<and>
     (visited s' - visited s) \<inter> temp s = {} \<and>
     (sort_inv ts s \<longrightarrow> sort_inv ts s')"

section \<open>Notions used to state the properties of the forward pass\<close>


section \<open>Example projects\<close>

text \<open>
  Tasks whose three estimates are the same number \<open>d\<close>, so that every sample of the
  duration is \<open>d\<close>; a chain in which \<open>B\<close> depends on \<open>A\<close>, listed with \<open>B\<close>
  first; and a cycle of two tasks.
\<close>

definition example_task :: "string \<Rightarrow> real \<Rightarrow> string list \<Rightarrow> task" where
  "example_task i d deps =
     \<lparr>task_id = i, task_name = i, optimistic = d, mostLikely = d, pessimistic = d,
      dependencies = deps, resourceType = None, resourceCount = None\<rparr>"

definition example_project :: "task list \<Rightarrow> projectData" where
  "example_project ts = \<lparr>projectName = ''example'', description = [], tasks = ts\<rparr>"

definition example_chain :: "task list" where
  "example_chain = [example_task ''B'' 3 [''A''], example_task ''A'' 2 []]"

definition example_cycle :: "task list" where
  "example_cycle = [example_task ''A'' 2 [''B''], example_task ''B'' 3 [''A'']]"

text \<open>
  Tasks that hold \<open>c\<close> units of the resource \<open>ty\<close> while they run. In the hand-over
  project, \<open>A\<close> holds 3 developers during \<open>[0, 2]\<close> and \<open>B\<close>, which depends on \<open>A\<close>,
  holds 2 developers during \<open>[2, 4]\<close>: \<open>A\<close> releases at the instant at which \<open>B\<close>
  acquires. The two lists are the same project with its tasks in either order.
\<close>

definition example_resource_task ::
  "string \<Rightarrow> real \<Rightarrow> string list \<Rightarrow> string \<Rightarrow> real \<Rightarrow> task" where
  "example_resource_task i d deps ty c =
     \<lparr>task_id = i, task_name = i, optimistic = d, mostLikely = d, pessimistic = d,
      dependencies = deps, resourceType = Some ty, resourceCount = Some c\<rparr>"

definition handover_release_first :: "task list" where
  "handover_release_first =
     [example_resource_task ''A'' 2 [] ''dev'' 3,
      example_resource_task ''B'' 2 [''A''] ''dev'' 2]"

definition handover_acquire_first :: "task list" where
  "handover_acquire_first =
     [example_resource_task ''B'' 2 [''A''] ''dev'' 2,
      example_resource_task ''A'' 2 [] ''dev'' 3]"

text \<open>A task whose only dependency names no task, and a second cycle.\<close>

definition example_unknown :: "task list" where
  "example_unknown = [example_task ''A'' 2 [''X'']]"

definition example_cycle2 :: "task list" where
  "example_cycle2 = [example_task ''C'' 1 [''D''], example_task ''D'' 1 [''C'']]"

text \<open>Three run results with the total durations 5, 1 and 3 and no resource peaks.\<close>

definition example_result :: "nat \<Rightarrow> real \<Rightarrow> simulationResult" where
  "example_result i d =
     \<lparr>runId = i, totalDuration = d, criticalPath = [], taskDurations = Map.empty,
      taskStartTimes = Map.empty, peakResources = Map.empty\<rparr>"

definition example_runs :: "simulationResult list" where
  "example_runs = [example_result 0 5, example_result 1 1, example_result 2 3]"



section \<open>Properties of the duration sampler\<close>

lemma js_div_finite_iff: "is_finite (js_div (Fin x) (Fin y)) \<longleftrightarrow> y \<noteq> 0"
  by simp

lemma sampleTriangular_constant:
  "sampleTriangular u c mode c = Fin c"
  by (simp add: sampleTriangular_def js_sub_def Let_def)

text \<open>
  For a draw in \<open>[0, 1)\<close> the radicand of the branch that is taken is not negative,
  whatever the three estimates are, so the sample is a finite number.
\<close>

lemma sampleTriangular_finite:
  assumes "0 \<le> u" "u < 1"
  shows "is_finite (sampleTriangular u minv mode maxv)"
proof (cases "maxv = minv")
  case True
  then show ?thesis by (simp add: sampleTriangular_constant)
next
  case False
  let ?w = "maxv - minv"
  let ?f = "(mode - minv) / ?w"
  from False have w: "?w \<noteq> 0" by simp
  have f: "sampleTriangular_f minv mode maxv = Fin ?f"
    using w by (simp add: sampleTriangular_f_def)
  show ?thesis
  proof (cases "u < ?f")
    case True
    with assms have "0 \<le> ?f" by simp
    then have "0 \<le> ?w * (mode - minv)"
      by (auto simp: zero_le_divide_iff zero_le_mult_iff)
    with assms have "0 \<le> u * ?w * (mode - minv)" by (simp add: mult.assoc)
    with True f show ?thesis by (simp add: sampleTriangular_def Let_def not_less)
  next
    case False
    with assms have "0 \<le> 1 - ?f" by simp
    moreover have "1 - ?f = (maxv - mode) / ?w" using w by (simp add: field_simps)
    ultimately have "0 \<le> (maxv - mode) / ?w" by simp
    then have "0 \<le> ?w * (maxv - mode)"
      by (auto simp: zero_le_divide_iff zero_le_mult_iff)
    with assms have "0 \<le> (1 - u) * ?w * (maxv - mode)" by (simp add: mult.assoc)
    with False f show ?thesis by (simp add: sampleTriangular_def Let_def not_less js_sub_def)
  qed
qed

text \<open>
  Claim C4, as amended. When \<open>optimistic = pessimistic\<close> the sampler returns that constant
  for every draw \<open>u\<close>, but it does not short-circuit: the quotient \<open>f\<close> is evaluated with
  the divisor \<open>max - min = 0\<close> and is \<open>NaN\<close> or an infinity; the constant comes out
  because the radicand of either branch is then zero.
\<close>

theorem sampleTriangular_degenerate:
  "sampleTriangular u c mode c = Fin c \<and> \<not> is_finite (sampleTriangular_f c mode c)"
  by (simp add: sampleTriangular_def sampleTriangular_f_def js_sub_def Let_def)

text \<open>
  Claim C4 as stated fails: at \<open>optimistic = mostLikely = pessimistic = 2\<close> the sampler
  divides zero by zero.
\<close>

theorem sampleTriangular_divides_by_zero:
  "sampleTriangular_f 2 2 2 = js_div (Fin 0) (Fin 0) \<and> js_div (Fin 0) (Fin 0) = NaN \<and>
   \<not> is_finite (sampleTriangular_f 2 2 2)"
  by (simp add: sampleTriangular_f_def)

section \<open>Properties of the topological sort\<close>

lemma sort_step_refl: "sort_step ts s s"
  by (simp add: sort_step_def)

lemma sort_step_trans: "sort_step ts a b \<Longrightarrow> sort_step ts b c \<Longrightarrow> sort_step ts a c"
  unfolding sort_step_def by auto

lemma dep_rel_iff: "(a, d) \<in> dep_rel ts \<longleftrightarrow> (\<exists>t\<in>set ts. task_id t = a \<and> d \<in> set (dependencies t))"
  by (auto simp: dep_rel_def)

lemma deps_before_snoc:
  "deps_before K (r @ [t]) \<longleftrightarrow>
     deps_before K r \<and> (\<forall>d\<in>set (dependencies t). d \<in> K \<longrightarrow> d \<in> set (map task_id r))"
proof
  assume a: "deps_before K (r @ [t])"
  have "deps_before K r"
    unfolding deps_before_def
  proof (intro allI impI ballI)
    fix i d assume "i < length r" "d \<in> set (dependencies (r ! i))" "d \<in> K"
    with a[unfolded deps_before_def, rule_format, of i d]
    obtain j where "j < i" "task_id ((r @ [t]) ! j) = d" by (auto simp: nth_append)
    with \<open>i < length r\<close> show "\<exists>j<i. task_id (r ! j) = d" by (auto simp: nth_append)
  qed
  moreover have "\<forall>d\<in>set (dependencies t). d \<in> K \<longrightarrow> d \<in> set (map task_id r)"
  proof (intro ballI impI)
    fix d assume "d \<in> set (dependencies t)" "d \<in> K"
    with a[unfolded deps_before_def, rule_format, of "length r" d]
    obtain j where "j < length r" "task_id ((r @ [t]) ! j) = d" by auto
    then show "d \<in> set (map task_id r)" by (auto simp: nth_append)
  qed
  ultimately show "deps_before K r \<and> (\<forall>d\<in>set (dependencies t). d \<in> K \<longrightarrow> d \<in> set (map task_id r))"
    by simp
next
  assume a: "deps_before K r \<and> (\<forall>d\<in>set (dependencies t). d \<in> K \<longrightarrow> d \<in> set (map task_id r))"
  show "deps_before K (r @ [t])"
    unfolding deps_before_def
  proof (intro allI impI ballI)
    fix i d assume i: "i < length (r @ [t])" and d: "d \<in> set (dependencies ((r @ [t]) ! i))" "d \<in> K"
    show "\<exists>j<i. task_id ((r @ [t]) ! j) = d"
    proof (cases "i < length r")
      case True
      with d a[THEN conjunct1, unfolded deps_before_def, rule_format, of i d]
      obtain j where "j < i" "task_id (r ! j) = d" by (auto simp: nth_append)
      with True show ?thesis by (auto simp: nth_append intro!: exI[of _ j])
    next
      case False
      with i have [simp]: "i = length r" by simp
      from d a have "d \<in> set (map task_id r)" by auto
      then obtain j where "j < length r" "task_id (r ! j) = d"
        by (auto simp: in_set_conv_nth)
      then show ?thesis by (auto simp: nth_append intro!: exI[of _ j])
    qed
  qed
qed

lemma forEachE_step:
  assumes "forEachE f xs s = Some (Inr s')"
    and "\<And>x a b. x \<in> set xs \<Longrightarrow> f x a = Some (Inr b) \<Longrightarrow> sort_step ts a b"
  shows "sort_step ts s s'"
  using assms
proof (induction xs arbitrary: s)
  case Nil
  then show ?case by (simp add: sort_step_refl)
next
  case (Cons x xs)
  from Cons.prems(1) obtain m where m: "f x s = Some (Inr m)" and r: "forEachE f xs m = Some (Inr s')"
    by (auto split: option.splits sum.splits)
  have "sort_step ts s m" using Cons.prems(2)[of x s m] m by simp
  moreover have "sort_step ts m s'"
    by (rule Cons.IH[OF r]) (use Cons.prems(2) in auto)
  ultimately show ?case by (rule sort_step_trans)
qed

lemma forEachE_visited:
  assumes "forEachE f xs s = Some (Inr s')"
    and "\<And>x a b. x \<in> set xs \<Longrightarrow> f x a = Some (Inr b) \<Longrightarrow> sort_step ts a b \<and> (g x \<in> K \<longrightarrow> g x \<in> visited b)"
  shows "\<forall>x\<in>set xs. g x \<in> K \<longrightarrow> g x \<in> visited s'"
  using assms
proof (induction xs arbitrary: s)
  case Nil
  then show ?case by simp
next
  case (Cons x xs)
  from Cons.prems(1) obtain m where m: "f x s = Some (Inr m)" and r: "forEachE f xs m = Some (Inr s')"
    by (auto split: option.splits sum.splits)
  have 1: "g x \<in> K \<longrightarrow> g x \<in> visited m" using Cons.prems(2)[of x s m] m by simp
  have "sort_step ts m s'"
    by (rule forEachE_step[OF r]) (use Cons.prems(2) in auto)
  then have 2: "visited m \<subseteq> visited s'" by (simp add: sort_step_def)
  have 3: "\<forall>y\<in>set xs. g y \<in> K \<longrightarrow> g y \<in> visited s'"
    by (rule Cons.IH[OF r]) (use Cons.prems(2) in auto)
  from 1 2 3 show ?case by auto
qed

lemma visit_step:
  "visit n ts x s = Some (Inr s') \<Longrightarrow>
     sort_step ts s s' \<and> (x \<in> task_ids ts \<longrightarrow> x \<in> visited s')"
proof (induction n arbitrary: x s s')
  case 0
  then show ?case by simp
next
  case (Suc n)
  show ?case
  proof (cases "x \<in> temp s \<or> x \<in> visited s")
    case True
    with Suc.prems show ?thesis by (auto simp: sort_step_refl split: if_splits)
  next
    case False
    then have xt: "x \<notin> temp s" and xv: "x \<notin> visited s" by auto
    define s1 where "s1 = s\<lparr>temp := insert x (temp s)\<rparr>"
    show ?thesis
    proof (cases "find (\<lambda>t. task_id t = x) ts")
      case None
      then have "x \<notin> task_ids ts" by (auto simp: find_None_iff task_ids_def)
      moreover from None Suc.prems xt xv have "s' = s\<lparr>temp := insert x (temp s) - {x}\<rparr>" by simp
      with xt have "s' = s" by simp
      ultimately show ?thesis by (simp add: sort_step_refl)
    next
      case (Some task)
      then have tid: "task_id task = x" and tin: "task \<in> set ts"
        by (auto simp: find_Some_iff)
      from Some Suc.prems xt xv obtain s2 where
        fe: "forEachE (visit n ts) (dependencies task) s1 = Some (Inr s2)" and
        s': "s' = s2\<lparr>visited := insert x (visited s2), result := result s2 @ [task], temp := temp s2 - {x}\<rparr>"
        by (auto simp: s1_def Let_def split: option.splits sum.splits)
      have st12: "sort_step ts s1 s2"
        by (rule forEachE_step[OF fe]) (use Suc.IH in blast)
      have vis: "\<forall>d\<in>set (dependencies task). d \<in> task_ids ts \<longrightarrow> d \<in> visited s2"
        by (rule forEachE_visited[OF fe, where g = "\<lambda>d. d" and ts = ts]) (use Suc.IH in blast)
      from st12 have t2: "temp s2 = insert x (temp s)" and v2: "visited s \<subseteq> visited s2"
        and d2: "(visited s2 - visited s) \<inter> insert x (temp s) = {}"
        and i2: "sort_inv ts s \<longrightarrow> sort_inv ts s2"
        by (auto simp: sort_step_def s1_def sort_inv_def)
      from d2 xv have xv2: "x \<notin> visited s2" by auto
      have "sort_inv ts s'" if "sort_inv ts s"
      proof -
        from that i2 have i: "sort_inv ts s2" by simp
        show ?thesis
          using i xv2 vis Some tid unfolding sort_inv_def s'
          by (auto simp: deps_before_snoc)
      qed
      moreover have "temp s' = temp s" using t2 xt by (simp add: s')
      moreover have "visited s \<subseteq> visited s'" using v2 by (auto simp: s')
      moreover have "(visited s' - visited s) \<inter> temp s = {}" using d2 xt by (auto simp: s')
      moreover have "x \<in> visited s'" by (simp add: s')
      ultimately show ?thesis by (simp add: sort_step_def)
    qed
  qed
qed

lemma forEachE_not_None:
  assumes "P s"
    and "\<And>x a. x \<in> set xs \<Longrightarrow> P a \<Longrightarrow> f x a \<noteq> None"
    and "\<And>x a b. x \<in> set xs \<Longrightarrow> P a \<Longrightarrow> f x a = Some (Inr b) \<Longrightarrow> P b"
  shows "forEachE f xs s \<noteq> None"
  using assms
proof (induction xs arbitrary: s)
  case Nil
  then show ?case by simp
next
  case (Cons x xs)
  from Cons.prems(1,2) have "f x s \<noteq> None" by simp
  then obtain r where r: "f x s = Some r" by auto
  show ?case
  proof (cases r)
    case (Inl e)
    with r show ?thesis by simp
  next
    case (Inr m)
    have "P m" using Cons.prems(3)[of x s m] Cons.prems(1) r Inr by simp
    then have "forEachE f xs m \<noteq> None"
    proof (rule Cons.IH)
      fix y a assume "y \<in> set xs" "P a"
      then show "f y a \<noteq> None" using Cons.prems(2)[of y a] by simp
    next
      fix y a b assume "y \<in> set xs" "P a" "f y a = Some (Inr b)"
      then show "P b" using Cons.prems(3)[of y a b] by simp
    qed
    with r Inr show ?thesis by simp
  qed
qed

lemma forEachE_not_Inl:
  assumes "P s"
    and "\<And>x a. x \<in> set xs \<Longrightarrow> P a \<Longrightarrow> f x a \<noteq> Some (Inl e)"
    and "\<And>x a b. x \<in> set xs \<Longrightarrow> P a \<Longrightarrow> f x a = Some (Inr b) \<Longrightarrow> P b"
  shows "forEachE f xs s \<noteq> Some (Inl e)"
  using assms
proof (induction xs arbitrary: s)
  case Nil
  then show ?case by simp
next
  case (Cons x xs)
  show ?case
  proof (cases "f x s")
    case None
    then show ?thesis by simp
  next
    case (Some r)
    show ?thesis
    proof (cases r)
      case (Inl e')
      with Some Cons.prems(2)[of x s] Cons.prems(1) show ?thesis by auto
    next
      case (Inr m)
      have "P m" using Cons.prems(3)[of x s m] Cons.prems(1) Some Inr by simp
      then have "forEachE f xs m \<noteq> Some (Inl e)"
      proof (rule Cons.IH)
        fix y a assume "y \<in> set xs" "P a"
        then show "f y a \<noteq> Some (Inl e)" using Cons.prems(2)[of y a] by simp
      next
        fix y a b assume "y \<in> set xs" "P a" "f y a = Some (Inr b)"
        then show "P b" using Cons.prems(3)[of y a b] by simp
      qed
      with Some Inr show ?thesis by simp
    qed
  qed
qed

lemma visit_temp: "visit n ts x s = Some (Inr s') \<Longrightarrow> temp s' = temp s"
  using visit_step[of n ts x s s'] by (simp add: sort_step_def)

lemma finite_task_ids: "finite (task_ids ts)"
  by (simp add: task_ids_def)

lemma find_task_id: "find (\<lambda>t. task_id t = x) ts = Some task \<Longrightarrow> task_id task = x \<and> task \<in> set ts"
  by (auto simp: find_Some_iff)

lemma visit_fuel: "card (task_ids ts - temp s) < n \<Longrightarrow> visit n ts x s \<noteq> None"
proof (induction n arbitrary: x s)
  case 0
  then show ?case by simp
next
  case (Suc n)
  show ?case
  proof (cases "x \<in> temp s \<or> x \<in> visited s")
    case True
    then show ?thesis by auto
  next
    case False
    then have xt: "x \<notin> temp s" and xv: "x \<notin> visited s" by auto
    show ?thesis
    proof (cases "find (\<lambda>t. task_id t = x) ts")
      case None
      with xt xv show ?thesis by simp
    next
      case (Some task)
      then have "x \<in> task_ids ts" by (auto simp: find_Some_iff task_ids_def)
      with xt have "x \<in> task_ids ts - temp s" by simp
      then have "card (task_ids ts - temp s - {x}) < card (task_ids ts - temp s)"
        by (intro card_Diff1_less) (simp_all add: finite_task_ids)
      moreover have "task_ids ts - insert x (temp s) = task_ids ts - temp s - {x}" by auto
      ultimately have c: "card (task_ids ts - insert x (temp s)) < n" using Suc.prems by simp
      have "forEachE (visit n ts) (dependencies task) (s\<lparr>temp := insert x (temp s)\<rparr>) \<noteq> None"
      proof (rule forEachE_not_None[where P = "\<lambda>a::sort_state. temp a = insert x (temp s)"])
        show "temp (s\<lparr>temp := insert x (temp s)\<rparr>) = insert x (temp s)" by simp
      next
        fix d and a :: sort_state assume "temp a = insert x (temp s)"
        with c show "visit n ts d a \<noteq> None" by (intro Suc.IH) simp
      next
        fix d and a b :: sort_state
        assume "temp a = insert x (temp s)" "visit n ts d a = Some (Inr b)"
        then show "temp b = insert x (temp s)" by (simp add: visit_temp)
      qed
      with Some xt xv show ?thesis by (auto simp: Let_def split: option.splits sum.splits)
    qed
  qed
qed

lemma visit_no_throw:
  assumes ac: "acyclic (dep_rel ts)"
  shows "\<forall>y\<in>temp s. (y, x) \<in> (dep_rel ts)\<^sup>+ \<Longrightarrow> visit n ts x s \<noteq> Some (Inl e)"
proof (induction n arbitrary: x s)
  case 0
  then show ?case by simp
next
  case (Suc n)
  have xt: "x \<notin> temp s"
  proof
    assume "x \<in> temp s"
    with Suc.prems have "(x, x) \<in> (dep_rel ts)\<^sup>+" by simp
    with ac show False by (simp add: acyclic_def)
  qed
  show ?case
  proof (cases "x \<in> visited s")
    case True
    with xt show ?thesis by simp
  next
    case xv: False
    show ?thesis
    proof (cases "find (\<lambda>t. task_id t = x) ts")
      case None
      with xt xv show ?thesis by simp
    next
      case (Some task)
      then have tk: "task_id task = x" "task \<in> set ts" by (auto dest: find_task_id)
      have "forEachE (visit n ts) (dependencies task) (s\<lparr>temp := insert x (temp s)\<rparr>) \<noteq> Some (Inl e)"
      proof (rule forEachE_not_Inl[where P = "\<lambda>a::sort_state. temp a = insert x (temp s)"])
        show "temp (s\<lparr>temp := insert x (temp s)\<rparr>) = insert x (temp s)" by simp
      next
        fix d and a :: sort_state
        assume d: "d \<in> set (dependencies task)" and a: "temp a = insert x (temp s)"
        from d tk have e: "(x, d) \<in> dep_rel ts" by (auto simp: dep_rel_iff)
        have "\<forall>y\<in>temp a. (y, d) \<in> (dep_rel ts)\<^sup>+"
        proof
          fix y assume "y \<in> temp a"
          with a have "y = x \<or> y \<in> temp s" by simp
          then show "(y, d) \<in> (dep_rel ts)\<^sup>+"
          proof
            assume "y = x" with e show ?thesis by auto
          next
            assume "y \<in> temp s"
            with Suc.prems have "(y, x) \<in> (dep_rel ts)\<^sup>+" by simp
            from this e show ?thesis by (rule trancl_into_trancl)
          qed
        qed
        then show "visit n ts d a \<noteq> Some (Inl e)" by (rule Suc.IH)
      next
        fix d and a b :: sort_state
        assume "temp a = insert x (temp s)" "visit n ts d a = Some (Inr b)"
        then show "temp b = insert x (temp s)" by (simp add: visit_temp)
      qed
      with Some xt xv show ?thesis by (auto simp: Let_def split: option.splits sum.splits)
    qed
  qed
qed

lemma sort_inv_init: "sort_inv ts \<lparr>visited = {}, result = [], temp = {}\<rparr>"
  by (simp add: sort_inv_def deps_before_def)

lemma topologicalSort_fuel_returns:
  assumes "length ts < n"
  shows "topologicalSort_fuel n ts \<noteq> None"
proof -
  have c: "card (task_ids ts) < n"
    using assms card_length[of "map task_id ts"] by (simp add: task_ids_def)
  let ?g = "\<lambda>(t::task) s. if task_id t \<notin> visited s then visit n ts (task_id t) s else Some (Inr s)"
  have "forEachE ?g ts \<lparr>visited = {}, result = [], temp = {}\<rparr> \<noteq> None"
  proof (rule forEachE_not_None[where P = "\<lambda>a::sort_state. temp a = {}"])
    show "temp \<lparr>visited = {}, result = [], temp = {}\<rparr> = {}" by simp
  next
    fix t :: task and a :: sort_state assume "temp a = {}"
    with c show "?g t a \<noteq> None" using visit_fuel[of ts a n "task_id t"] by auto
  next
    fix t :: task and a b :: sort_state assume "temp a = {}" "?g t a = Some (Inr b)"
    then show "temp b = {}" by (auto simp: visit_temp split: if_splits)
  qed
  then show ?thesis by (auto simp: topologicalSort_fuel_def split: option.splits sum.splits)
qed

lemma topologicalSort_fuel_no_throw:
  assumes "acyclic (dep_rel ts)"
  shows "topologicalSort_fuel n ts \<noteq> Some (Inl e)"
proof -
  let ?g = "\<lambda>(t::task) s. if task_id t \<notin> visited s then visit n ts (task_id t) s else Some (Inr s)"
  have "forEachE ?g ts \<lparr>visited = {}, result = [], temp = {}\<rparr> \<noteq> Some (Inl e)"
  proof (rule forEachE_not_Inl[where P = "\<lambda>a::sort_state. temp a = {}"])
    show "temp \<lparr>visited = {}, result = [], temp = {}\<rparr> = {}" by simp
  next
    fix t :: task and a :: sort_state assume "temp a = {}"
    then show "?g t a \<noteq> Some (Inl e)" using visit_no_throw[OF assms, of a] by simp
  next
    fix t :: task and a b :: sort_state assume "temp a = {}" "?g t a = Some (Inr b)"
    then show "temp b = {}" by (auto simp: visit_temp split: if_splits)
  qed
  then show ?thesis by (auto simp: topologicalSort_fuel_def split: option.splits sum.splits)
qed

lemma visit_throws_message:
  "visit n ts x s = Some (Inl e) \<Longrightarrow> e = Error ''Circular dependency detected''"
proof (induction n arbitrary: x s)
  case 0
  then show ?case by simp
next
  case (Suc n)
  have fe: "forEachE (visit n ts) ds a = Some (Inl e) \<Longrightarrow> e = Error ''Circular dependency detected''" for ds a
  proof (induction ds arbitrary: a)
    case Nil
    then show ?case by simp
  next
    case (Cons d ds)
    then show ?case using Suc.IH by (auto split: option.splits sum.splits)
  qed
  from Suc.prems show ?case
    by (auto simp: Let_def split: if_splits option.splits sum.splits dest: fe)
qed

lemma topologicalSort_fuel_message:
  assumes "topologicalSort_fuel n ts = Some (Inl e)"
  shows "e = Error ''Circular dependency detected''"
proof -
  let ?g = "\<lambda>(t::task) s. if task_id t \<notin> visited s then visit n ts (task_id t) s else Some (Inr s)"
  have fe: "forEachE ?g us a = Some (Inl e) \<Longrightarrow> e = Error ''Circular dependency detected''" for us :: "task list" and a
  proof (induction us arbitrary: a)
    case Nil
    then show ?case by simp
  next
    case (Cons u us)
    then show ?case by (auto split: option.splits sum.splits if_splits dest: visit_throws_message)
  qed
  from assms show ?thesis
    by (auto simp: topologicalSort_fuel_def split: option.splits sum.splits dest: fe)
qed

lemma topologicalSort_fuel_sound:
  assumes "topologicalSort_fuel n ts = Some (Inr order)"
  shows "set (map task_id order) = task_ids ts"
    and "distinct (map task_id order)"
    and "\<forall>t\<in>set order. find (\<lambda>t'. task_id t' = task_id t) ts = Some t"
    and "deps_before (task_ids ts) order"
proof -
  let ?g = "\<lambda>(t::task) s. if task_id t \<notin> visited s then visit n ts (task_id t) s else Some (Inr s)"
  let ?s0 = "\<lparr>visited = {}, result = [], temp = {}\<rparr>"
  from assms obtain s where fe: "forEachE ?g ts ?s0 = Some (Inr s)" and o: "order = result s"
    by (auto simp: topologicalSort_fuel_def split: option.splits sum.splits)
  have g: "sort_step ts a b \<and> (task_id t \<in> task_ids ts \<longrightarrow> task_id t \<in> visited b)"
    if "?g t a = Some (Inr b)" for t :: task and a b
    using that visit_step[of n ts "task_id t" a b]
    by (auto simp: sort_step_refl split: if_splits)
  have "sort_step ts ?s0 s"
    by (rule forEachE_step[OF fe]) (use g in blast)
  then have inv: "sort_inv ts s" by (simp add: sort_step_def sort_inv_init)
  have "\<forall>t\<in>set ts. task_id t \<in> task_ids ts \<longrightarrow> task_id t \<in> visited s"
    by (rule forEachE_visited[OF fe, where ts = ts]) (use g in blast)
  then have sub: "task_ids ts \<subseteq> visited s" by (auto simp: task_ids_def)
  from inv show "distinct (map task_id order)"
    and f: "\<forall>t\<in>set order. find (\<lambda>t'. task_id t' = task_id t) ts = Some t"
    and "deps_before (task_ids ts) order"
    by (simp_all add: sort_inv_def o)
  from f have "set order \<subseteq> set ts" by (auto dest: find_task_id)
  with sub inv show "set (map task_id order) = task_ids ts"
    by (auto simp: sort_inv_def o task_ids_def)
qed

lemma find_distinct_id:
  "distinct (map task_id ts) \<Longrightarrow> t \<in> set ts \<Longrightarrow> find (\<lambda>t'. task_id t' = task_id t) ts = Some t"
  by (induction ts) (auto simp: rev_image_eqI)

lemma topologicalSort_fuel_set:
  assumes "topologicalSort_fuel n ts = Some (Inr order)" and d: "distinct (map task_id ts)"
  shows "set order = set ts"
proof
  from topologicalSort_fuel_sound(3)[OF assms(1)] show "set order \<subseteq> set ts"
    by (auto dest: find_task_id)
next
  show "set ts \<subseteq> set order"
  proof
    fix t assume t: "t \<in> set ts"
    then have "task_id t \<in> set (map task_id order)"
      using topologicalSort_fuel_sound(1)[OF assms(1)] by (auto simp: task_ids_def)
    then obtain t' where t': "t' \<in> set order" "task_id t' = task_id t" by auto
    with topologicalSort_fuel_sound(3)[OF assms(1)]
    have "find (\<lambda>u. task_id u = task_id t) ts = Some t'" by auto
    with find_distinct_id[OF d t] have "t' = t" by simp
    with t' show "t \<in> set order" by simp
  qed
qed

lemma topologicalSort_fuel_acyclic:
  assumes ok: "topologicalSort_fuel n ts = Some (Inr order)" and d: "distinct (map task_id ts)"
  shows "acyclic (dep_rel ts)"
proof -
  define ids where "ids = map task_id order"
  define pos where "pos x = (if x \<in> set ids then Suc (length (takeWhile (\<lambda>y. y \<noteq> x) ids)) else 0)" for x
  note snd = topologicalSort_fuel_sound[OF ok]
  have dist: "distinct ids" using snd(2) by (simp add: ids_def)
  have pos_nth: "pos (ids ! i) = Suc i" if "i < length ids" for i
  proof -
    have "takeWhile (\<lambda>y. y \<noteq> ids ! i) ids = take i ids"
    proof (rule takeWhile_eq_take_P_nth)
      fix j assume "j < i" "j < length ids"
      with that dist show "ids ! j \<noteq> ids ! i" by (simp add: nth_eq_iff_index_eq)
    next
      show "\<not> ids ! i \<noteq> ids ! i" by simp
    qed
    with that show ?thesis by (simp add: pos_def)
  qed
  show ?thesis
  proof (rule acyclicI_order[where f = pos])
    fix a b assume "(a, b) \<in> dep_rel ts"
    then obtain t where t: "t \<in> set ts" "task_id t = a" "b \<in> set (dependencies t)"
      by (auto simp: dep_rel_iff)
    from t(1) have "t \<in> set order" using topologicalSort_fuel_set[OF ok d] by simp
    then obtain i where i: "i < length order" "order ! i = t" by (auto simp: in_set_conv_nth)
    then have pa: "pos a = Suc i" using pos_nth[of i] t(2) by (simp add: ids_def)
    show "pos b < pos a"
    proof (cases "b \<in> task_ids ts")
      case True
      with snd(4) i t(3) obtain j where "j < i" "task_id (order ! j) = b"
        unfolding deps_before_def by blast
      with i(1) pos_nth[of j] have "pos b = Suc j" by (simp add: ids_def)
      with \<open>j < i\<close> pa show ?thesis by simp
    next
      case False
      with snd(1) have "b \<notin> set ids" by (simp add: ids_def)
      with pa show ?thesis by (simp add: pos_def)
    qed
  qed
qed

subsection \<open>The example projects\<close>

lemma dep_rel_example_chain: "dep_rel example_chain = {(''B'', ''A'')}"
  by (simp add: dep_rel_def example_chain_def example_task_def)

lemma dep_rel_example_cycle: "dep_rel example_cycle = {(''A'', ''B''), (''B'', ''A'')}"
  by (simp add: dep_rel_def example_cycle_def example_task_def)

lemma acyclic_example_chain: "acyclic (dep_rel example_chain)"
proof -
  have "acyclic ({} :: (string \<times> string) set)" by (simp add: acyclic_def)
  then show ?thesis by (simp add: dep_rel_example_chain)
qed

lemma cyclic_example_cycle: "\<not> acyclic (dep_rel example_cycle)"
proof -
  have "(''A'', ''A'') \<in> (dep_rel example_cycle)\<^sup>+"
    unfolding dep_rel_example_cycle
    by (rule trancl_into_trancl[of _ "''B''"]) auto
  then show ?thesis by (auto simp: acyclic_def)
qed

subsection \<open>The fuel of the traversal\<close>

text \<open>
  The sort returns with the fuel it is given, and every larger fuel gives the same
  result: the bound on the depth of the recursion is not felt.
\<close>

lemma topologicalSort_returns: "\<exists>r. topologicalSort ts = Some r"
  using topologicalSort_fuel_returns[of ts "Suc (length ts)"]
  by (auto simp: topologicalSort_def)

lemma forEachE_Some_cong:
  assumes "forEachE f xs s = Some r"
    and "\<And>x a q. x \<in> set xs \<Longrightarrow> f x a = Some q \<Longrightarrow> g x a = Some q"
  shows "forEachE g xs s = Some r"
  using assms
proof (induction xs arbitrary: s)
  case Nil
  then show ?case by simp
next
  case (Cons x xs)
  from Cons.prems(1) obtain q where q: "f x s = Some q" by (auto split: option.splits)
  with Cons.prems(2) have g: "g x s = Some q" by simp
  show ?case
  proof (cases q)
    case (Inl e)
    with q Cons.prems(1) have "r = Inl e" by simp
    with g Inl show ?thesis by simp
  next
    case (Inr m)
    with q Cons.prems(1) have "forEachE f xs m = Some r" by simp
    then have "forEachE g xs m = Some r"
      by (rule Cons.IH) (use Cons.prems(2) in auto)
    with g Inr show ?thesis by simp
  qed
qed

lemma visit_more_fuel: "visit n ts x s = Some r \<Longrightarrow> visit (Suc n) ts x s = Some r"
proof (induction n arbitrary: x s r)
  case 0
  then show ?case by simp
next
  case (Suc n)
  show ?case
  proof (cases "x \<in> temp s \<or> x \<in> visited s")
    case True
    with Suc.prems show ?thesis by auto
  next
    case False
    then have xt: "x \<notin> temp s" "x \<notin> visited s" by auto
    show ?thesis
    proof (cases "find (\<lambda>t. task_id t = x) ts")
      case None
      with Suc.prems xt show ?thesis by simp
    next
      case (Some task)
      let ?s1 = "s\<lparr>temp := insert x (temp s)\<rparr>"
      from Suc.prems Some xt obtain q where
        q: "forEachE (visit n ts) (dependencies task) ?s1 = Some q"
        by (auto simp: Let_def split: option.splits)
      then have "forEachE (visit (Suc n) ts) (dependencies task) ?s1 = Some q"
        by (rule forEachE_Some_cong) (rule Suc.IH)
      moreover have "visit (Suc k) ts x s =
          (case forEachE (visit k ts) (dependencies task) ?s1 of
             None \<Rightarrow> None
           | Some (Inl e) \<Rightarrow> Some (Inl e)
           | Some (Inr s2) \<Rightarrow>
               Some (Inr (s2\<lparr>visited := insert x (visited s2),
                              result := result s2 @ [task],
                              temp := temp s2 - {x}\<rparr>)))" for k
        using Some xt by (simp add: Let_def)
      ultimately show ?thesis using q Suc.prems by (simp del: visit.simps)
    qed
  qed
qed

lemma visit_fuel_add: "visit n ts x s = Some r \<Longrightarrow> visit (n + k) ts x s = Some r"
  by (induction k) (simp_all add: visit_more_fuel del: visit.simps)

lemma visit_fuel_add_Suc:
  "visit (Suc m) ts x s = Some r \<Longrightarrow> visit (Suc (m + k)) ts x s = Some r"
  using visit_fuel_add[of "Suc m" ts x s r k] by (simp del: visit.simps)

lemma topologicalSort_fuel_independent:
  assumes "length ts < n"
  shows "topologicalSort_fuel n ts = topologicalSort ts"
proof -
  let ?m = "Suc (length ts)"
  let ?g = "\<lambda>k (t::task) s. if task_id t \<notin> visited s then visit k ts (task_id t) s else Some (Inr s)"
  from assms obtain k where n: "n = ?m + k" by (metis Suc_leI le_Suc_ex)
  have "forEachE (?g ?m) ts \<lparr>visited = {}, result = [], temp = {}\<rparr> \<noteq> None"
    using topologicalSort_fuel_returns[of ts ?m]
    by (auto simp: topologicalSort_fuel_def split: option.splits)
  then obtain q where q: "forEachE (?g ?m) ts \<lparr>visited = {}, result = [], temp = {}\<rparr> = Some q"
    by auto
  then have "forEachE (?g n) ts \<lparr>visited = {}, result = [], temp = {}\<rparr> = Some q"
    unfolding n
    by (rule forEachE_Some_cong) (auto simp: visit_fuel_add_Suc simp del: visit.simps split: if_splits)
  with q show ?thesis by (simp add: topologicalSort_def topologicalSort_fuel_def)
qed

section \<open>Properties of the simulation loop\<close>

lemmas run_defs =
  simulateRun_def sampleTriangular_constant forwardPass_def scheduleTask_def
  resourcePeaks_def taskEvents_def applyEvent_def or0_def Let_def

lemma length_simulateRuns: "length (fst (simulateRuns ts st draws n)) = n"
  by (induction n) (auto simp: Let_def split: prod.splits)

lemma runSimulation_returns:
  assumes "topologicalSort (tasks project) = Some (Inr order)"
  shows "\<exists>out. runSimulation project iterations draws = Some (Inr out) \<and>
           length (results out) = iterations"
  using assms by (simp add: runSimulation_def Let_def length_simulateRuns)

lemma runSimulation_throws:
  assumes "topologicalSort (tasks project) = Some (Inl e)"
  shows "runSimulation project iterations draws = Some (Inl e)"
  using assms by (simp add: runSimulation_def)

lemma topologicalSort_handover_release_first:
  "topologicalSort handover_release_first =
     Some (Inr [example_resource_task ''A'' 2 [] ''dev'' 3,
                example_resource_task ''B'' 2 [''A''] ''dev'' 2])"
  by (simp add: topologicalSort_def topologicalSort_fuel_def handover_release_first_def
      example_resource_task_def)

lemma topologicalSort_handover_acquire_first:
  "topologicalSort handover_acquire_first =
     Some (Inr [example_resource_task ''A'' 2 [] ''dev'' 3,
                example_resource_task ''B'' 2 [''A''] ''dev'' 2])"
  by (simp add: topologicalSort_def topologicalSort_fuel_def handover_acquire_first_def
      example_resource_task_def)

lemma topologicalSort_example_unknown:
  "topologicalSort example_unknown = Some (Inr [example_task ''A'' 2 [''X'']])"
  by (simp add: topologicalSort_def topologicalSort_fuel_def example_unknown_def example_task_def)

lemma visit_unknown:
  assumes "d \<notin> task_ids ts" "d \<notin> temp s"
  shows "visit (Suc n) ts d s = Some (Inr s)"
proof -
  from assms(1) have "find (\<lambda>t. task_id t = d) ts = None"
    by (auto simp: find_None_iff task_ids_def)
  with assms(2) show ?thesis by simp
qed

lemma acyclic_example_unknown: "acyclic (dep_rel example_unknown)"
proof -
  have "acyclic ({} :: (string \<times> string) set)" by (simp add: acyclic_def)
  then show ?thesis by (simp add: dep_rel_def example_unknown_def example_task_def)
qed

lemma topologicalSort_example_cycle:
  "topologicalSort example_cycle = Some (Inl (Error ''Circular dependency detected''))"
  by (simp add: topologicalSort_def topologicalSort_fuel_def example_cycle_def example_task_def)

lemma topologicalSort_example_cycle2:
  "topologicalSort example_cycle2 = Some (Inl (Error ''Circular dependency detected''))"
  by (simp add: topologicalSort_def topologicalSort_fuel_def example_cycle2_def example_task_def)

lemma topologicalSort_cyclic:
  assumes d: "distinct (map task_id ts)" and c: "\<not> acyclic (dep_rel ts)"
  shows "topologicalSort ts = Some (Inl (Error ''Circular dependency detected''))"
proof -
  have "topologicalSort ts \<noteq> None"
    by (simp add: topologicalSort_def topologicalSort_fuel_returns)
  then obtain r where r: "topologicalSort_fuel (Suc (length ts)) ts = Some r"
    by (auto simp: topologicalSort_def)
  show ?thesis
  proof (cases r)
    case (Inl e)
    with r topologicalSort_fuel_message[of "Suc (length ts)" ts e] show ?thesis
      by (simp add: topologicalSort_def)
  next
    case (Inr order)
    with r c topologicalSort_fuel_acyclic[OF _ d] show ?thesis by blast
  qed
qed







text \<open>
  Every run result holds the start times and the project duration that the forward pass
  computes from the durations sampled in that run.
\<close>

lemma simulateRun_result:
  "taskStartTimes (fst (simulateRun ts st draws i k))
     = startTimes (forwardPass (taskDurations (fst (simulateRun ts st draws i k))) st) \<and>
   totalDuration (fst (simulateRun ts st draws i k))
     = projectDuration (forwardPass (taskDurations (fst (simulateRun ts st draws i k))) st) \<and>
   peakResources (fst (simulateRun ts st draws i k))
     = resourcePeaks ts (forwardPass (taskDurations (fst (simulateRun ts st draws i k))) st)"
  by (cases "sampleDurations draws ts (Map.empty, k)") (simp add: simulateRun_def Let_def)

lemma simulateRuns_results:
  assumes "r \<in> set (fst (simulateRuns ts st draws n))"
  shows "taskStartTimes r = startTimes (forwardPass (taskDurations r) st) \<and>
         totalDuration r = projectDuration (forwardPass (taskDurations r) st) \<and>
         peakResources r = resourcePeaks ts (forwardPass (taskDurations r) st)"
  using assms
proof (induction n)
  case 0
  then show ?case by simp
next
  case (Suc n)
  obtain rs k where a: "simulateRuns ts st draws n = (rs, k)"
    by (cases "simulateRuns ts st draws n")
  obtain q k' where b: "simulateRun ts st draws n k = (q, k')"
    by (cases "simulateRun ts st draws n k")
  from Suc.prems a b have "r \<in> set rs \<or> r = q" by auto
  then show ?case
  proof
    assume "r \<in> set rs"
    with a Suc.IH show ?thesis by simp
  next
    assume "r = q"
    with b simulateRun_result[of ts st draws n k] show ?thesis by simp
  qed
qed

section \<open>Properties of the statistics\<close>

lemma fold_add_sum_list: "fold (\<lambda>b a. a + b) xs (s::real) = s + sum_list xs"
  by (induction xs arbitrary: s) simp_all

lemma floor_index_bounds:
  assumes "0 < n" "0 \<le> p" "p < 1"
  shows "0 \<le> \<lfloor>real n * p\<rfloor>" and "\<lfloor>real n * p\<rfloor> < int n"
proof -
  from assms show "0 \<le> \<lfloor>real n * p\<rfloor>" by simp
  from assms have "real n * p < real n * 1" by (intro mult_strict_left_mono) simp_all
  then show "\<lfloor>real n * p\<rfloor> < int n" by (simp add: floor_less_iff)
qed

lemma floor_half: "\<lfloor>real n / 2\<rfloor> = int (n div 2)"
proof -
  have "\<lfloor>real_of_int (int n) / real_of_int 2\<rfloor> = int n div 2"
    by (rule floor_divide_of_int_eq)
  then show ?thesis by simp
qed

lemma js_index_in_range:
  "0 \<le> i \<Longrightarrow> i < int (length xs) \<Longrightarrow> js_index xs i = Some (xs ! nat i)"
  by (simp add: js_index_def)

lemma getPercentile_in_range:
  assumes "ds \<noteq> []" "0 \<le> p" "p < 1"
  shows "getPercentile ds p = Some (ds ! nat \<lfloor>real (length ds) * p\<rfloor>)"
    and "nat \<lfloor>real (length ds) * p\<rfloor> < length ds"
proof -
  from assms have b: "0 \<le> \<lfloor>real (length ds) * p\<rfloor>" "\<lfloor>real (length ds) * p\<rfloor> < int (length ds)"
    using floor_index_bounds[of "length ds" p] by simp_all
  then show "getPercentile ds p = Some (ds ! nat \<lfloor>real (length ds) * p\<rfloor>)"
    by (simp add: getPercentile_def js_index_def)
  from b show "nat \<lfloor>real (length ds) * p\<rfloor> < length ds"
    by linarith
qed

lemma median_of_in_range:
  assumes "ds \<noteq> []"
  shows "median_of ds = Some (ds ! (length ds div 2))"
  using assms by (simp add: median_of_def floor_half js_index_def)

lemma getPercentile_half: "getPercentile ds 0.5 = median_of ds"
  by (simp add: getPercentile_def median_of_def)

lemma getPercentile_mono:
  assumes "sorted ds" "ds \<noteq> []" "0 \<le> p" "p \<le> q" "q < 1"
  shows "\<exists>a b. getPercentile ds p = Some a \<and> getPercentile ds q = Some b \<and> a \<le> b"
proof -
  let ?n = "length ds"
  from assms have p1: "p < 1" and q0: "0 \<le> q" by simp_all
  have "real ?n * p \<le> real ?n * q" using assms(4) by (simp add: mult_left_mono)
  then have "nat \<lfloor>real ?n * p\<rfloor> \<le> nat \<lfloor>real ?n * q\<rfloor>"
    by (intro nat_mono floor_mono)
  moreover have "nat \<lfloor>real ?n * q\<rfloor> < ?n"
    using getPercentile_in_range(2)[OF assms(2) q0 assms(5)] .
  ultimately have "ds ! nat \<lfloor>real ?n * p\<rfloor> \<le> ds ! nat \<lfloor>real ?n * q\<rfloor>"
    using assms(1) by (simp add: sorted_nth_mono)
  then show ?thesis
    using getPercentile_in_range(1)[OF assms(2,3) p1]
      getPercentile_in_range(1)[OF assms(2) q0 assms(5)] by simp
qed

lemma sortedDurations_props:
  "sorted (sortedDurations rs)"
  "mset (sortedDurations rs) = mset (map totalDuration rs)"
  by (simp_all add: sortedDurations_def)

lemma length_sortedDurations: "length (sortedDurations rs) = length rs"
  by (simp add: sortedDurations_def)

lemma sortedDurations_nonempty: "rs \<noteq> [] \<Longrightarrow> sortedDurations rs \<noteq> []"
  using length_sortedDurations[of rs] by auto

lemma calculateStats_fields:
  "median (calculateStats rtypes rs) = median_of (sortedDurations rs)"
  "p50 (calculateStats rtypes rs) = median_of (sortedDurations rs)"
  "p90 (calculateStats rtypes rs) = getPercentile (sortedDurations rs) 0.9"
  "p95 (calculateStats rtypes rs) = getPercentile (sortedDurations rs) 0.95"
  "p99 (calculateStats rtypes rs) = getPercentile (sortedDurations rs) 0.99"
  "min_stat (calculateStats rtypes rs) = js_index (sortedDurations rs) 0"
  "max_stat (calculateStats rtypes rs) =
     js_index (sortedDurations rs) (int (length (sortedDurations rs)) - 1)"
  "mean (calculateStats rtypes rs) =
     js_div (Fin (sum_list (sortedDurations rs))) (Fin (real (length (sortedDurations rs))))"
  by (simp_all add: calculateStats_def Let_def fold_add_sum_list del: js_div.simps)

lemma sortedDurations_example_runs: "sortedDurations example_runs = [1, 3, 5]"
  by (simp add: sortedDurations_def example_runs_def example_result_def)

lemma fold_squares_finite:
  "fold (\<lambda>val acc. js_add acc (Math_pow2 (js_sub (Fin val) (Fin m)))) ds (Fin a)
     = Fin (a + sum_list (map (\<lambda>v. (v - m) * (v - m)) ds))"
  by (induction ds arbitrary: a) (simp_all add: js_sub_def)

lemma calculateStats_nonempty:
  assumes "rs \<noteq> []"
  shows "mean (calculateStats rtypes rs) = Fin (sum_list (sortedDurations rs) / real (length rs))"
    and "is_finite (stdDev (calculateStats rtypes rs))"
    and "min_stat (calculateStats rtypes rs) = Some (sortedDurations rs ! 0)"
    and "max_stat (calculateStats rtypes rs) = Some (sortedDurations rs ! (length rs - 1))"
proof -
  let ?ds = "sortedDurations rs"
  have len: "length ?ds = length rs" by (rule length_sortedDurations)
  from assms have n: "real (length rs) \<noteq> 0" by simp
  show m: "mean (calculateStats rtypes rs) = Fin (sum_list ?ds / real (length rs))"
    using n by (simp add: calculateStats_fields len)
  have "0 \<le> sum_list (map (\<lambda>v. (v - m) * (v - m)) ?ds)" for m :: real
    by (rule sum_list_nonneg) auto
  then show "is_finite (stdDev (calculateStats rtypes rs))"
    using n m[unfolded calculateStats_fields]
    by (simp add: calculateStats_def Let_def fold_add_sum_list len fold_squares_finite
        del: js_div.simps) (simp add: not_less)
  from assms show "min_stat (calculateStats rtypes rs) = Some (?ds ! 0)"
    by (simp add: calculateStats_fields js_index_def len)
  from assms have "int (length rs) - 1 \<ge> 0" "nat (int (length rs) - 1) = length rs - 1"
    by (simp_all add: Suc_leI)
  then show "max_stat (calculateStats rtypes rs) = Some (?ds ! (length rs - 1))"
    by (simp add: calculateStats_fields js_index_def len)
qed

lemma calculateStats_empty:
  "mean (calculateStats rtypes []) = NaN"
  "stdDev (calculateStats rtypes []) = NaN"
  "median (calculateStats rtypes []) = None"
  "min_stat (calculateStats rtypes []) = None"
  "max_stat (calculateStats rtypes []) = None"
  "p50 (calculateStats rtypes []) = None"
  "p90 (calculateStats rtypes []) = None"
  "p95 (calculateStats rtypes []) = None"
  "p99 (calculateStats rtypes []) = None"
  by (simp_all add: calculateStats_def Let_def sortedDurations_def median_of_def
      getPercentile_def js_index_def)

lemma runSimulation_value:
  assumes "topologicalSort (tasks project) = Some (Inr order)"
  shows "runSimulation project n draws =
           Some (Inr \<lparr>results = fst (simulateRuns (tasks project) order draws n),
                      stats = calculateStats (resourceTypes (tasks project))
                                (fst (simulateRuns (tasks project) order draws n))\<rparr>)"
  using assms by (simp add: runSimulation_def Let_def)

lemma topologicalSort_example_chain:
  "topologicalSort example_chain =
     Some (Inr [example_task ''A'' 2 [], example_task ''B'' 3 [''A'']])"
  by (simp add: topologicalSort_def topologicalSort_fuel_def example_chain_def example_task_def)













section \<open>Properties of the forward pass\<close>

lemma forwardPass_snoc:
  "forwardPass durs (r @ [t]) = scheduleTask durs t (forwardPass durs r)"
  by (simp add: forwardPass_def)


lemma scheduleTask_fields:
  "startTimes (scheduleTask durs t sc) =
     (startTimes sc)(task_id t \<mapsto>
        (if dependencies t = [] then 0
         else Max ((\<lambda>x. or0 (finishTimes sc x)) ` set (dependencies t))))"
  "finishTimes (scheduleTask durs t sc) =
     (finishTimes sc)(task_id t \<mapsto>
        (if dependencies t = [] then 0
         else Max ((\<lambda>x. or0 (finishTimes sc x)) ` set (dependencies t))) + the (durs (task_id t)))"
  "projectDuration (scheduleTask durs t sc) =
     max (projectDuration sc)
       ((if dependencies t = [] then 0
         else Max ((\<lambda>x. or0 (finishTimes sc x)) ` set (dependencies t))) + the (durs (task_id t)))"
  by (auto simp: scheduleTask_def Let_def)





subsection \<open>The records that are read are defined\<close>

text \<open>
  The forward pass reads \<open>taskDurations[task.id]\<close> and the events read
  \<open>taskStartTimes[t.id]\<close> and \<open>taskFinishTimes[t.id]\<close> without a default. These
  keys were all assigned before.
\<close>

lemma dom_sampleDurations:
  "dom (fst (sampleDurations draws ts (m, k))) = dom m \<union> task_ids ts"
  by (induction ts arbitrary: m k) (auto simp: task_ids_def)

lemma dom_scheduleTask:
  "dom (startTimes (scheduleTask durs t sc)) = insert (task_id t) (dom (startTimes sc))"
  "dom (finishTimes (scheduleTask durs t sc)) = insert (task_id t) (dom (finishTimes sc))"
  by (simp_all only: scheduleTask_fields dom_fun_upd option.distinct if_False)

lemma dom_forwardPass:
  "dom (startTimes (forwardPass durs r)) = task_ids r"
  "dom (finishTimes (forwardPass durs r)) = task_ids r"
proof -
  have "dom (startTimes (forwardPass durs r)) = task_ids r \<and>
        dom (finishTimes (forwardPass durs r)) = task_ids r"
  proof (induction r rule: rev_induct)
    case Nil
    then show ?case by (simp add: forwardPass_def task_ids_def)
  next
    case (snoc t r)
    then show ?case by (simp add: forwardPass_snoc dom_scheduleTask task_ids_def)
  qed
  then show "dom (startTimes (forwardPass durs r)) = task_ids r"
    "dom (finishTimes (forwardPass durs r)) = task_ids r" by simp_all
qed

lemma topologicalSort_ids:
  "topologicalSort ts = Some (Inr order) \<Longrightarrow> task_ids order = task_ids ts"
  using topologicalSort_fuel_sound(1)[of "Suc (length ts)" ts order]
  by (simp add: topologicalSort_def task_ids_def)

lemma lookups_defined:
  assumes "topologicalSort ts = Some (Inr order)"
    and "durs = fst (sampleDurations draws ts (Map.empty, k))"
  shows "\<forall>t\<in>set order. durs (task_id t) \<noteq> None"
    and "\<forall>t\<in>set ts. startTimes (forwardPass durs order) (task_id t) \<noteq> None \<and>
                      finishTimes (forwardPass durs order) (task_id t) \<noteq> None"
proof -
  have "task_ids order \<subseteq> dom durs"
    by (simp add: assms(2) dom_sampleDurations topologicalSort_ids[OF assms(1)])
  then show "\<forall>t\<in>set order. durs (task_id t) \<noteq> None" by (auto simp: task_ids_def)
  have "task_ids ts \<subseteq> dom (startTimes (forwardPass durs order))"
    "task_ids ts \<subseteq> dom (finishTimes (forwardPass durs order))"
    by (simp_all add: dom_forwardPass topologicalSort_ids[OF assms(1)])
  then show "\<forall>t\<in>set ts. startTimes (forwardPass durs order) (task_id t) \<noteq> None \<and>
                      finishTimes (forwardPass durs order) (task_id t) \<noteq> None"
    by (auto simp: task_ids_def)
qed

section \<open>Claims about the topological sort\<close>

text \<open>
  Claim C1. Let the identifiers of the tasks be pairwise distinct, as the data model has
  them. If the dependency relation is acyclic and every dependency identifier names a
  task, \<open>topologicalSort\<close> returns a list with exactly the tasks of the collection, each
  once, in which every dependency of a task stands at a smaller index than the task. If
  the dependency relation has a cycle, \<open>topologicalSort\<close> throws, and so returns no list
  at all, partial or not.
\<close>

theorem topologicalSort_correct:
  assumes "distinct (map task_id ts)"
  shows "(acyclic (dep_rel ts) \<and> (\<forall>t\<in>set ts. set (dependencies t) \<subseteq> task_ids ts) \<longrightarrow>
            (\<exists>order. topologicalSort ts = Some (Inr order) \<and>
               set order = set ts \<and> distinct order \<and>
               (\<forall>i<length order. \<forall>d\<in>set (dependencies (order ! i)).
                  \<exists>j<i. task_id (order ! j) = d))) \<and>
         (\<not> acyclic (dep_rel ts) \<longrightarrow>
            topologicalSort ts = Some (Inl (Error ''Circular dependency detected'')))"
proof (intro conjI impI)
  assume a: "acyclic (dep_rel ts) \<and> (\<forall>t\<in>set ts. set (dependencies t) \<subseteq> task_ids ts)"
  have "topologicalSort ts \<noteq> None"
    by (simp add: topologicalSort_def topologicalSort_fuel_returns)
  moreover have "topologicalSort ts \<noteq> Some (Inl e)" for e
    using a by (simp add: topologicalSort_def topologicalSort_fuel_no_throw)
  ultimately obtain order where o: "topologicalSort_fuel (Suc (length ts)) ts = Some (Inr order)"
    unfolding topologicalSort_def by (metis not_Some_eq sum.exhaust)
  note snd = topologicalSort_fuel_sound[OF o]
  have s: "set order = set ts" by (rule topologicalSort_fuel_set[OF o assms])
  have "\<exists>j<i. task_id (order ! j) = d"
    if "i < length order" "d \<in> set (dependencies (order ! i))" for i d
  proof -
    from that(1) s have "order ! i \<in> set ts" by (metis nth_mem)
    with a that(2) have "d \<in> task_ids ts" by auto
    with snd(4) that show ?thesis unfolding deps_before_def by blast
  qed
  moreover from snd(2) have "distinct order" by (simp add: distinct_map)
  ultimately show "\<exists>order. topologicalSort ts = Some (Inr order) \<and>
               set order = set ts \<and> distinct order \<and>
               (\<forall>i<length order. \<forall>d\<in>set (dependencies (order ! i)).
                  \<exists>j<i. task_id (order ! j) = d)"
    using o s by (auto simp: topologicalSort_def)
next
  assume c: "\<not> acyclic (dep_rel ts)"
  have "topologicalSort ts \<noteq> None"
    by (simp add: topologicalSort_def topologicalSort_fuel_returns)
  then obtain r where r: "topologicalSort_fuel (Suc (length ts)) ts = Some r"
    by (auto simp: topologicalSort_def)
  show "topologicalSort ts = Some (Inl (Error ''Circular dependency detected''))"
  proof (cases r)
    case (Inl e)
    with r topologicalSort_fuel_message[of "Suc (length ts)" ts e] show ?thesis
      by (simp add: topologicalSort_def)
  next
    case (Inr order)
    with r c topologicalSort_fuel_acyclic[OF _ assms] show ?thesis by blast
  qed
qed

theorem topologicalSort_correct_witness:
  "(\<exists>order. topologicalSort example_chain = Some (Inr order) \<and>
      set order = set example_chain \<and> distinct order \<and>
      (\<forall>i<length order. \<forall>d\<in>set (dependencies (order ! i)). \<exists>j<i. task_id (order ! j) = d)) \<and>
   topologicalSort example_cycle = Some (Inl (Error ''Circular dependency detected''))"
proof -
  have d1: "distinct (map task_id example_chain)"
    by (simp add: example_chain_def example_task_def)
  have k1: "\<forall>t\<in>set example_chain. set (dependencies t) \<subseteq> task_ids example_chain"
    by (simp add: example_chain_def example_task_def task_ids_def)
  have d2: "distinct (map task_id example_cycle)"
    by (simp add: example_cycle_def example_task_def)
  from topologicalSort_correct[OF d1] acyclic_example_chain k1
    topologicalSort_correct[OF d2] cyclic_example_cycle
  show ?thesis by blast
qed

section \<open>Claims about the errors of the engine\<close>

text \<open>
  Claim C3 as stated fails: the task \<open>A\<close> of \<open>example_unknown\<close> depends on \<open>X\<close>, which
  names no task, and yet the sort returns \<open>[A]\<close> and the simulation produces its runs.
\<close>

theorem unknown_dependency_not_reported:
  "topologicalSort example_unknown = Some (Inr [example_task ''A'' 2 [''X'']]) \<and>
   ''X'' \<in> set (dependencies (example_task ''A'' 2 [''X''])) \<and>
   ''X'' \<notin> task_ids example_unknown \<and>
   (\<exists>out. runSimulation (example_project example_unknown) 2 (\<lambda>k. 0) = Some (Inr out) \<and>
      length (results out) = 2)"
proof -
  have "\<exists>out. runSimulation (example_project example_unknown) 2 (\<lambda>k. 0) = Some (Inr out) \<and>
      length (results out) = 2"
    by (rule runSimulation_returns[where order = "[example_task ''A'' 2 [''X'']]"])
       (simp add: example_project_def topologicalSort_example_unknown)
  then show ?thesis
    by (simp add: topologicalSort_example_unknown)
       (simp add: example_task_def example_unknown_def task_ids_def)
qed

text \<open>
  Claim C3, as amended. Let some task depend on an identifier \<open>d\<close> that names no task,
  and let the dependency relation be acyclic. Then no error is raised: \<open>visit\<close> returns
  from \<open>d\<close> with the state unchanged, \<open>topologicalSort\<close> returns an order with the
  identifiers of all the tasks, and \<open>runSimulation\<close> produces one result for each
  iteration.
\<close>

theorem unknown_dependency_ignored:
  assumes "acyclic (dep_rel ts)"
    and "t \<in> set ts" and "d \<in> set (dependencies t)" and "d \<notin> task_ids ts"
  shows "(\<forall>n s. d \<notin> temp s \<longrightarrow> visit (Suc n) ts d s = Some (Inr s)) \<and>
         (\<exists>order out.
            topologicalSort ts = Some (Inr order) \<and>
            set (map task_id order) = task_ids ts \<and>
            runSimulation \<lparr>projectName = pn, description = ds, tasks = ts\<rparr> iterations draws
              = Some (Inr out) \<and>
            length (results out) = iterations)"
proof
  show "\<forall>n s. d \<notin> temp s \<longrightarrow> visit (Suc n) ts d s = Some (Inr s)"
    using assms(4) by (simp add: visit_unknown del: visit.simps)
next
  have "topologicalSort ts \<noteq> None"
    by (simp add: topologicalSort_def topologicalSort_fuel_returns)
  moreover have "topologicalSort ts \<noteq> Some (Inl e)" for e
    using assms(1) by (simp add: topologicalSort_def topologicalSort_fuel_no_throw)
  ultimately obtain order where o: "topologicalSort ts = Some (Inr order)"
    by (metis not_Some_eq sum.exhaust)
  then have "set (map task_id order) = task_ids ts"
    using topologicalSort_fuel_sound(1)[of "Suc (length ts)" ts order]
    by (simp only: topologicalSort_def)
  moreover from o obtain out where
    "runSimulation \<lparr>projectName = pn, description = ds, tasks = ts\<rparr> iterations draws
       = Some (Inr out) \<and> length (results out) = iterations"
    using runSimulation_returns[of "\<lparr>projectName = pn, description = ds, tasks = ts\<rparr>" order]
    by auto
  ultimately show "\<exists>order out.
            topologicalSort ts = Some (Inr order) \<and>
            set (map task_id order) = task_ids ts \<and>
            runSimulation \<lparr>projectName = pn, description = ds, tasks = ts\<rparr> iterations draws
              = Some (Inr out) \<and>
            length (results out) = iterations"
    using o by blast
qed

theorem unknown_dependency_ignored_witness:
  "visit (Suc 0) example_unknown ''X'' \<lparr>visited = {}, result = [], temp = {''A''}\<rparr>
     = Some (Inr \<lparr>visited = {}, result = [], temp = {''A''}\<rparr>) \<and>
   (\<exists>order out.
      topologicalSort example_unknown = Some (Inr order) \<and>
      set (map task_id order) = task_ids example_unknown \<and>
      runSimulation \<lparr>projectName = ''example'', description = [], tasks = example_unknown\<rparr> 3 (\<lambda>k. 0)
        = Some (Inr out) \<and>
      length (results out) = 3)"
proof -
  have 1: "example_task ''A'' 2 [''X''] \<in> set example_unknown"
    by (simp add: example_unknown_def)
  have 2: "''X'' \<in> set (dependencies (example_task ''A'' 2 [''X'']))"
    by (simp add: example_task_def)
  have 3: "''X'' \<notin> task_ids example_unknown"
    by (simp add: example_unknown_def example_task_def task_ids_def)
  have 4: "''X'' \<notin> temp \<lparr>visited = {}, result = [], temp = {''A''}\<rparr>"
    by simp
  from unknown_dependency_ignored[OF acyclic_example_unknown 1 2 3, of "''example''" "[]" 3 "\<lambda>k. 0"] 4
  show ?thesis by blast
qed

text \<open>
  Claim C5 as stated fails in its first half: the error carries a fixed message and no
  task identifier. The cycle of \<open>A\<close> and \<open>B\<close> and the cycle of \<open>C\<close> and \<open>D\<close>, which
  share no task, raise the same error value.
\<close>

theorem cycle_error_names_no_task:
  "topologicalSort example_cycle = Some (Inl (Error ''Circular dependency detected'')) \<and>
   topologicalSort example_cycle2 = Some (Inl (Error ''Circular dependency detected'')) \<and>
   task_ids example_cycle = {''A'', ''B''} \<and> task_ids example_cycle2 = {''C'', ''D''} \<and>
   task_ids example_cycle \<inter> task_ids example_cycle2 = {}"
  by (simp add: topologicalSort_example_cycle topologicalSort_example_cycle2)
     (simp add: task_ids_def example_cycle_def example_cycle2_def example_task_def)

text \<open>
  Claim C5, as amended. For every task collection with pairwise distinct identifiers
  whose dependency relation has a cycle, \<open>topologicalSort\<close> throws the error with the
  message \<open>Circular dependency detected\<close>, which names no task, and \<open>runSimulation\<close>
  ends with that error: it returns no results.
\<close>

theorem cyclic_dependency_no_results:
  assumes "distinct (map task_id ts)" and "\<not> acyclic (dep_rel ts)"
  shows "topologicalSort ts = Some (Inl (Error ''Circular dependency detected'')) \<and>
         runSimulation \<lparr>projectName = pn, description = ds, tasks = ts\<rparr> iterations draws
           = Some (Inl (Error ''Circular dependency detected''))"
  using topologicalSort_cyclic[OF assms]
  by (simp add: runSimulation_throws)

theorem cyclic_dependency_no_results_witness:
  "topologicalSort example_cycle = Some (Inl (Error ''Circular dependency detected'')) \<and>
   runSimulation \<lparr>projectName = ''example'', description = [], tasks = example_cycle\<rparr> 2000 (\<lambda>k. 0)
     = Some (Inl (Error ''Circular dependency detected''))"
proof -
  have d: "distinct (map task_id example_cycle)"
    by (simp add: example_cycle_def example_task_def)
  show ?thesis
    by (rule cyclic_dependency_no_results[OF d cyclic_example_cycle])
qed

section \<open>Claims about the resource usage tracker\<close>

text \<open>
  Claim C2 fails on the code. The events are sorted by time alone and applied one at a
  time, the peak being read after each. In the hand-over project the release of \<open>A\<close>
  and the acquisition of \<open>B\<close> share the time 2, and at no instant are more than 3
  developers in use. With \<open>A\<close> listed first the peak is 3; with \<open>B\<close> listed first the
  acquisition is applied before the release and the peak is 3 + 2 = 5.
\<close>

theorem resource_peak_depends_on_task_order:
  "(\<exists>out. runSimulation (example_project handover_release_first) 1 draws = Some (Inr out) \<and>
      map (\<lambda>r. peakResources r ''dev'') (results out) = [Some 3]) \<and>
   (\<exists>out. runSimulation (example_project handover_acquire_first) 1 draws = Some (Inr out) \<and>
      map (\<lambda>r. peakResources r ''dev'') (results out) = [Some 5])"
proof
  have "map (\<lambda>r. peakResources r ''dev'')
          (fst (simulateRuns handover_release_first
             [example_resource_task ''A'' 2 [] ''dev'' 3,
              example_resource_task ''B'' 2 [''A''] ''dev'' 2] draws 1)) = [Some 3]"
    by (simp add: run_defs handover_release_first_def example_resource_task_def)
  then show "\<exists>out. runSimulation (example_project handover_release_first) 1 draws = Some (Inr out) \<and>
      map (\<lambda>r. peakResources r ''dev'') (results out) = [Some 3]"
    by (simp add: runSimulation_def example_project_def topologicalSort_handover_release_first
        Let_def del: simulateRuns.simps One_nat_def)
next
  have "map (\<lambda>r. peakResources r ''dev'')
          (fst (simulateRuns handover_acquire_first
             [example_resource_task ''A'' 2 [] ''dev'' 3,
              example_resource_task ''B'' 2 [''A''] ''dev'' 2] draws 1)) = [Some 5]"
    by (simp add: run_defs handover_acquire_first_def example_resource_task_def)
  then show "\<exists>out. runSimulation (example_project handover_acquire_first) 1 draws = Some (Inr out) \<and>
      map (\<lambda>r. peakResources r ''dev'') (results out) = [Some 5]"
    by (simp add: runSimulation_def example_project_def topologicalSort_handover_acquire_first
        Let_def del: simulateRuns.simps One_nat_def)
qed

section \<open>Claims about the statistics\<close>

text \<open>
  Claim C7. For a non-empty collection of runs, let \<open>ds\<close> be the total durations sorted
  in ascending order and \<open>n\<close> their number. The median of the statistics is \<open>ds\<close> at
  the index \<open>n div 2\<close>; for \<open>0 \<le> p < 1\<close> the percentile function returns \<open>ds\<close> at the
  index \<open>floor (n * p)\<close>; the percentile at \<open>0.5\<close> is the median, which is also the
  field \<open>p50\<close>, and the fields \<open>p90\<close>, \<open>p95\<close> and \<open>p99\<close> are the percentiles at
  \<open>0.9\<close>, \<open>0.95\<close> and \<open>0.99\<close>; and for \<open>0 \<le> p \<le> q < 1\<close> the percentile at \<open>p\<close> is
  at most the percentile at \<open>q\<close>.
\<close>

theorem percentile_median:
  assumes "rs \<noteq> []"
    and "ds = sortedDurations rs" and "st = calculateStats rtypes rs"
    and "0 \<le> p" and "p \<le> q" and "q < 1"
  shows "sorted ds \<and> mset ds = mset (map totalDuration rs) \<and>
         median st = Some (ds ! (length rs div 2)) \<and>
         getPercentile ds p = Some (ds ! nat \<lfloor>real (length rs) * p\<rfloor>) \<and>
         getPercentile ds 0.5 = median st \<and>
         p50 st = median st \<and>
         p90 st = getPercentile ds 0.9 \<and>
         p95 st = getPercentile ds 0.95 \<and>
         p99 st = getPercentile ds 0.99 \<and>
         (\<exists>a b. getPercentile ds p = Some a \<and> getPercentile ds q = Some b \<and> a \<le> b)"
proof -
  from assms(1) have ne: "ds \<noteq> []"
    unfolding assms(2) by (rule sortedDurations_nonempty)
  have len: "length ds = length rs"
    unfolding assms(2) by (rule length_sortedDurations)
  have srt: "sorted ds" "mset ds = mset (map totalDuration rs)"
    unfolding assms(2) by (rule sortedDurations_props)+
  from assms(4-6) have p1: "p < 1" by simp
  have 1: "median st = Some (ds ! (length rs div 2))"
    using median_of_in_range[OF ne] by (simp add: assms(2,3) calculateStats_fields len[unfolded assms(2)])
  have 2: "getPercentile ds p = Some (ds ! nat \<lfloor>real (length rs) * p\<rfloor>)"
    using getPercentile_in_range(1)[OF ne assms(4) p1] by (simp add: len)
  have 3: "\<exists>a b. getPercentile ds p = Some a \<and> getPercentile ds q = Some b \<and> a \<le> b"
    by (rule getPercentile_mono[OF srt(1) ne assms(4-6)])
  have 4: "getPercentile ds 0.5 = median st" "p50 st = median st"
    "p90 st = getPercentile ds 0.9" "p95 st = getPercentile ds 0.95"
    "p99 st = getPercentile ds 0.99"
    by (simp_all add: assms(2,3) calculateStats_fields getPercentile_def median_of_def)
  from srt 1 2 3 4 show ?thesis by blast
qed

theorem percentile_median_witness:
  "sortedDurations example_runs = [1, 3, 5] \<and>
   median (calculateStats [] example_runs) = Some 3 \<and>
   getPercentile [1, 3, 5] 0.5 = Some 3 \<and>
   p50 (calculateStats [] example_runs) = Some 3 \<and>
   p90 (calculateStats [] example_runs) = getPercentile [1, 3, 5] 0.9 \<and>
   (\<exists>a b. getPercentile [1, 3, 5] 0.5 = Some a \<and> getPercentile [1, 3, 5] 0.9 = Some b \<and> a \<le> b)"
proof -
  have ne: "example_runs \<noteq> []" by (simp add: example_runs_def)
  have len: "length example_runs = 3" by (simp add: example_runs_def)
  from percentile_median[OF ne refl refl, of "0.5" "0.9" "[]"]
  show ?thesis
    by (auto simp: sortedDurations_example_runs len)
qed

text \<open>
  Claim C10. Let the topological sort succeed, so that \<open>runSimulation\<close> reaches the
  aggregation. With 0 iterations it still returns normally: the sorted vector of
  durations is empty, the mean and the standard deviation are \<open>0 / 0 = NaN\<close>, and the
  median, the minimum, the maximum and every percentile are \<open>undefined\<close>. With
  \<open>n \<ge> 1\<close> iterations the index \<open>floor (n * p)\<close> lies in \<open>[0, n)\<close> for each of the four
  percentiles, the divisions are by \<open>n \<noteq> 0\<close> and give finite numbers, and every lookup
  finds an element. Nothing in \<open>runSimulation\<close> tests \<open>n\<close>.
\<close>

theorem aggregation_unguarded:
  assumes "topologicalSort (tasks project) = Some (Inr order)"
  shows "(\<exists>out. runSimulation project 0 draws = Some (Inr out) \<and> results out = [] \<and>
            sortedDurations (results out) = [] \<and>
            mean (stats out) = NaN \<and> stdDev (stats out) = NaN \<and>
            median (stats out) = None \<and> min_stat (stats out) = None \<and>
            max_stat (stats out) = None \<and> p50 (stats out) = None \<and> p90 (stats out) = None \<and>
            p95 (stats out) = None \<and> p99 (stats out) = None) \<and>
         (1 \<le> n \<longrightarrow>
            (\<forall>p\<in>{0.5, 0.9, 0.95, 0.99}. 0 \<le> \<lfloor>real n * p\<rfloor> \<and> \<lfloor>real n * p\<rfloor> < int n) \<and>
            (\<exists>out. runSimulation project n draws = Some (Inr out) \<and>
               length (sortedDurations (results out)) = n \<and>
               is_finite (mean (stats out)) \<and> is_finite (stdDev (stats out)) \<and>
               median (stats out) \<noteq> None \<and> min_stat (stats out) \<noteq> None \<and>
               max_stat (stats out) \<noteq> None \<and> p50 (stats out) \<noteq> None \<and>
               p90 (stats out) \<noteq> None \<and> p95 (stats out) \<noteq> None \<and> p99 (stats out) \<noteq> None))"
proof (intro conjI impI)
  show "\<exists>out. runSimulation project 0 draws = Some (Inr out) \<and> results out = [] \<and>
            sortedDurations (results out) = [] \<and>
            mean (stats out) = NaN \<and> stdDev (stats out) = NaN \<and>
            median (stats out) = None \<and> min_stat (stats out) = None \<and>
            max_stat (stats out) = None \<and> p50 (stats out) = None \<and> p90 (stats out) = None \<and>
            p95 (stats out) = None \<and> p99 (stats out) = None"
    by (simp add: runSimulation_value[OF assms] calculateStats_empty)
       (simp add: sortedDurations_def)
next
  assume n: "1 \<le> n"
  then have n0: "0 < n" by simp
  show "\<forall>p\<in>{0.5, 0.9, 0.95, 0.99}. 0 \<le> \<lfloor>real n * p\<rfloor> \<and> \<lfloor>real n * p\<rfloor> < int n"
  proof
    fix p :: real assume "p \<in> {0.5, 0.9, 0.95, 0.99}"
    then have "0 \<le> p" "p < 1" by auto
    then show "0 \<le> \<lfloor>real n * p\<rfloor> \<and> \<lfloor>real n * p\<rfloor> < int n"
      using floor_index_bounds[OF n0, of p] by simp
  qed
next
  assume n: "1 \<le> n"
  let ?rs = "fst (simulateRuns (tasks project) order draws n)"
  have len: "length ?rs = n" by (rule length_simulateRuns)
  with n have ne: "?rs \<noteq> []" by auto
  then have ne': "sortedDurations ?rs \<noteq> []" by (rule sortedDurations_nonempty)
  let ?st = "calculateStats (resourceTypes (tasks project)) ?rs"
  have "is_finite (mean ?st)" "is_finite (stdDev ?st)"
    "min_stat ?st \<noteq> None" "max_stat ?st \<noteq> None"
    using calculateStats_nonempty[OF ne] by simp_all
  moreover have "median ?st \<noteq> None" "p50 ?st \<noteq> None"
    using median_of_in_range[OF ne'] by (simp_all add: calculateStats_fields)
  moreover have "p90 ?st \<noteq> None" "p95 ?st \<noteq> None" "p99 ?st \<noteq> None"
    using getPercentile_in_range(1)[OF ne', of "0.9"] getPercentile_in_range(1)[OF ne', of "0.95"]
      getPercentile_in_range(1)[OF ne', of "0.99"]
    by (simp_all add: calculateStats_fields)
  ultimately show "\<exists>out. runSimulation project n draws = Some (Inr out) \<and>
               length (sortedDurations (results out)) = n \<and>
               is_finite (mean (stats out)) \<and> is_finite (stdDev (stats out)) \<and>
               median (stats out) \<noteq> None \<and> min_stat (stats out) \<noteq> None \<and>
               max_stat (stats out) \<noteq> None \<and> p50 (stats out) \<noteq> None \<and>
               p90 (stats out) \<noteq> None \<and> p95 (stats out) \<noteq> None \<and> p99 (stats out) \<noteq> None"
    by (simp add: runSimulation_value[OF assms] length_sortedDurations len)
qed

theorem aggregation_unguarded_witness:
  "(\<exists>out. runSimulation (example_project example_chain) 0 (\<lambda>k. 0) = Some (Inr out) \<and>
      results out = [] \<and> mean (stats out) = NaN \<and> median (stats out) = None \<and>
      min_stat (stats out) = None \<and> max_stat (stats out) = None \<and> p99 (stats out) = None) \<and>
   \<lfloor>real 2000 * 0.99\<rfloor> < int 2000 \<and>
   (\<exists>out. runSimulation (example_project example_chain) 2000 (\<lambda>k. 0) = Some (Inr out) \<and>
      length (sortedDurations (results out)) = 2000 \<and>
      is_finite (mean (stats out)) \<and> median (stats out) \<noteq> None \<and>
      min_stat (stats out) \<noteq> None \<and> max_stat (stats out) \<noteq> None \<and> p99 (stats out) \<noteq> None)"
proof -
  have s: "topologicalSort (tasks (example_project example_chain)) =
     Some (Inr [example_task ''A'' 2 [], example_task ''B'' 3 [''A'']])"
    by (simp add: example_project_def topologicalSort_example_chain)
  have n: "(1::nat) \<le> 2000" by simp
  from aggregation_unguarded[OF s, of "\<lambda>k. 0" 2000] n
  show ?thesis by auto
qed



section \<open>Claims about the whole simulation\<close>



section \<open>Claims about the forward pass\<close>



end
